theory Spec2Isabelle
  imports Main "HOL-Library.AList" "HOL-Library.Sublist"
begin

section \<open>Text helpers of the Python standard library used by bootstrap.py\<close>

text \<open>
  Text is a \<^typ>\<open>string\<close>: one \<^typ>\<open>char\<close> per code point, so the model covers
  the code points below 256. The two line boundaries of \<^verbatim>\<open>str.splitlines\<close> above
  that range (U+2028, U+2029) and the white space above it are outside the model.
\<close>

definition is_space :: "char \<Rightarrow> bool" where
  \<comment> \<open>\<^verbatim>\<open>str.isspace\<close> on one code point below 256: what \<^verbatim>\<open>str.strip()\<close> removes.\<close>
  "is_space c =
     (let n = (of_char c :: nat)
      in (9 \<le> n \<and> n \<le> 13) \<or> (28 \<le> n \<and> n \<le> 32) \<or> n = 133 \<or> n = 160)"

definition is_linebreak :: "char \<Rightarrow> bool" where
  \<comment> \<open>the line boundaries of \<^verbatim>\<open>str.splitlines\<close> below 256\<close>
  "is_linebreak c =
     (let n = (of_char c :: nat)
      in (10 \<le> n \<and> n \<le> 13) \<or> (28 \<le> n \<and> n \<le> 30) \<or> n = 133)"

fun lines_from :: "string \<Rightarrow> string \<Rightarrow> string list" where
  "lines_from cur [] = (if cur = [] then [] else [cur])"
| "lines_from cur (c # cs) =
     (if c = CHR 0x0D \<and> cs \<noteq> [] \<and> hd cs = CHR 0x0A then cur # lines_from [] (tl cs)
      else if is_linebreak c then cur # lines_from [] cs
      else lines_from (cur @ [c]) cs)"

definition splitlines :: "string \<Rightarrow> string list" where
  \<comment> \<open>\<^verbatim>\<open>str.splitlines()\<close>: CR LF is one boundary, no empty last line\<close>
  "splitlines s = lines_from [] s"

definition strip :: "string \<Rightarrow> string" where
  \<comment> \<open>\<^verbatim>\<open>str.strip()\<close>\<close>
  "strip s = rev (dropWhile is_space (rev (dropWhile is_space s)))"

definition strip_chars :: "char \<Rightarrow> string \<Rightarrow> string" where
  \<comment> \<open>\<^verbatim>\<open>str.strip(c)\<close> for a one-character argument: every leading and trailing \<open>c\<close>\<close>
  "strip_chars c s = rev (dropWhile (\<lambda>x. x = c) (rev (dropWhile (\<lambda>x. x = c) s)))"

definition startswith :: "string \<Rightarrow> string \<Rightarrow> bool" where
  "startswith s p = (take (length p) s = p)"

definition split_first :: "char \<Rightarrow> string \<Rightarrow> string \<times> string" where
  \<comment> \<open>\<^verbatim>\<open>s.split(c, 1)\<close> for an \<open>s\<close> that holds \<open>c\<close>: the text before the first \<open>c\<close>
      and the text after it\<close>
  "split_first c s = (takeWhile (\<lambda>x. x \<noteq> c) s, drop 1 (dropWhile (\<lambda>x. x \<noteq> c) s))"

abbreviation squote :: char where "squote \<equiv> CHR 0x27"
abbreviation dquote :: char where "dquote \<equiv> CHR 0x22"

section \<open>The file system and the errors\<close>

text \<open>
  A path is the list of its components below the file system's root. The file system maps
  a path to what is there; a file holds its text.
\<close>

type_synonym path = "string list"

datatype entry = F string | D

type_synonym filesys = "path \<rightharpoonup> entry"

datatype error =
    CommandFailed "string list"  \<comment> \<open>\<^verbatim>\<open>RuntimeError(f"Command failed: {cmd}")\<close>\<close>
  | SdkmanagerNotFound string    \<comment> \<open>\<^verbatim>\<open>RuntimeError(f"sdkmanager not found at {sdkmanager}")\<close>\<close>
  | OSError string               \<comment> \<open>OSError and its subclasses, by name\<close>
  | BadZipFile
  | SystemExit string

fun is_exception :: "error \<Rightarrow> bool" where
  \<comment> \<open>what \<^verbatim>\<open>except Exception\<close> catches: SystemExit derives from BaseException only\<close>
  "is_exception (SystemExit _) = False"
| "is_exception _ = True"

section \<open>load\_env\_file\<close>

definition env_line :: "string \<Rightarrow> (string \<times> string) option" where
  \<comment> \<open>the body of the loop of \<^verbatim>\<open>load_env_file\<close> on one line: \<open>None\<close> is
      \<^verbatim>\<open>continue\<close>, \<open>Some (k, v)\<close> is the assignment \<^verbatim>\<open>m[k] = v\<close>\<close>
  "env_line line =
     (let s = strip line
      in if s = [] \<or> startswith s ''#'' \<or> CHR ''='' \<notin> set s then None
         else (let (k, v) = split_first (CHR ''='') s;
                   v' = strip_chars dquote (strip_chars squote (strip v))
               in Some (strip k, v')))"

fun env_loop :: "(string \<rightharpoonup> string) \<Rightarrow> string list \<Rightarrow> (string \<rightharpoonup> string)" where
  "env_loop m [] = m"
| "env_loop m (l # ls) =
     (case env_line l of
        None \<Rightarrow> env_loop m ls
      | Some (k, v) \<Rightarrow> env_loop (m(k \<mapsto> v)) ls)"

definition load_env_file :: "filesys \<Rightarrow> path \<Rightarrow> error + (string \<rightharpoonup> string)" where
  \<comment> \<open>a missing path gives the empty mapping; \<^verbatim>\<open>read_text\<close> of a directory raises.
      A file holds its decoded text; \<^verbatim>\<open>read_text\<close> turns CR LF and CR into LF, which
      \<open>splitlines\<close> splits at the same places\<close>
  "load_env_file fs p =
     (case fs p of
        None \<Rightarrow> Inr Map.empty
      | Some D \<Rightarrow> Inl (OSError ''IsADirectoryError'')
      | Some (F text) \<Rightarrow> Inr (env_loop Map.empty (splitlines text)))"

definition env_get :: "(string \<rightharpoonup> string) \<Rightarrow> string \<Rightarrow> string \<Rightarrow> string" where
  \<comment> \<open>\<^verbatim>\<open>env_map.get(key, default)\<close>\<close>
  "env_get m k d = (case m k of None \<Rightarrow> d | Some v \<Rightarrow> v)"

section \<open>Host, world and program state\<close>

text \<open>
  An extracted archive is a directory tree. A subprocess is opaque: the host's
  \<open>popen\<close> says how a call ends and what it leaves of the world (the file system and
  the commands found on PATH). Downloading and extracting are capabilities of the host
  too; the temporary directory they work in is not part of the modelled file system.
\<close>

datatype tree = TFile string | TDir "(string \<times> tree) list"

record invocation =
  argv :: "string list"
  cwd :: "path option"
  penv :: "(string \<times> string) list option"
  input_bytes :: "string option"

datatype outcome =
    SpawnFailed string   \<comment> \<open>\<^verbatim>\<open>Popen\<close> raised an OSError: no process ran\<close>
  | Exited int string    \<comment> \<open>the return code and the decoded output\<close>

record world =
  fsys :: filesys
  which :: "string \<Rightarrow> bool"   \<comment> \<open>\<^verbatim>\<open>shutil.which(name) is not None\<close>\<close>

record host =
  is_windows :: bool
  environ :: "(string \<times> string) list"
  popen :: "invocation \<Rightarrow> world \<Rightarrow> outcome \<times> world"
  urlretrieve :: "string \<Rightarrow> error + string"
  extractall :: "string \<Rightarrow> error + (string \<times> tree) list"

datatype action = Run invocation | Download string | Unzip string

datatype emsg = ErrText string | LicenseWarning error

record state =
  world :: world
  trace :: "action list"    \<comment> \<open>every subprocess, download and extraction, in order\<close>
  out :: "string list"      \<comment> \<open>what was written to stdout\<close>
  errs :: "emsg list"       \<comment> \<open>what was written to stderr\<close>

definition log :: "string \<Rightarrow> state \<Rightarrow> state" where
  "log msg s = s\<lparr>out := out s @ [msg]\<rparr>"

definition err :: "emsg \<Rightarrow> state \<Rightarrow> state" where
  "err msg s = s\<lparr>errs := errs s @ [msg]\<rparr>"

definition have_cmd :: "state \<Rightarrow> string \<Rightarrow> bool" where
  "have_cmd s name = which (world s) name"

definition path_exists :: "state \<Rightarrow> path \<Rightarrow> bool" where
  "path_exists s p = (fsys (world s) p \<noteq> None)"

definition set_fsys :: "filesys \<Rightarrow> state \<Rightarrow> state" where
  "set_fsys f s = s\<lparr>world := (world s)\<lparr>fsys := f\<rparr>\<rparr>"

definition and_then ::
  "(error + 'a) \<times> state \<Rightarrow> ('a \<Rightarrow> state \<Rightarrow> (error + 'b) \<times> state) \<Rightarrow> (error + 'b) \<times> state" where
  \<comment> \<open>one statement after another: an exception skips what follows\<close>
  "and_then r f = (case r of (Inl e, s) \<Rightarrow> (Inl e, s) | (Inr x, s) \<Rightarrow> f x s)"

fun join :: "string \<Rightarrow> string list \<Rightarrow> string" where
  "join sep [] = []"
| "join sep [x] = x"
| "join sep (x # y # ys) = x @ sep @ join sep (y # ys)"

definition path_str :: "host \<Rightarrow> path \<Rightarrow> string" where
  \<comment> \<open>\<^verbatim>\<open>str(path)\<close> of an absolute path: on windows the first component is the drive\<close>
  "path_str H p = (if is_windows H then join [CHR 0x5C] p else concat (map (\<lambda>c. CHR ''/'' # c) p))"

definition run_checked :: "host \<Rightarrow> invocation \<Rightarrow> state \<Rightarrow> (error + unit) \<times> state" where
  "run_checked H cmd s =
     (let (oc, w) = popen H cmd (world s);
          s1 = s\<lparr>world := w, trace := trace s @ [Run cmd]\<rparr>
      in case oc of
           SpawnFailed e \<Rightarrow> (Inl (OSError e), s1)
         | Exited rc text \<Rightarrow>
             if rc \<noteq> 0 then (Inl (CommandFailed (argv cmd)), err (ErrText text) s1)
             else (Inr (), log text s1))"

definition download :: "host \<Rightarrow> string \<Rightarrow> state \<Rightarrow> (error + string) \<times> state" where
  "download H url s =
     (let s1 = log (''Downloading: '' @ url) s
      in (urlretrieve H url, s1\<lparr>trace := trace s1 @ [Download url]\<rparr>))"

definition unzip :: "host \<Rightarrow> string \<Rightarrow> state \<Rightarrow> (error + (string \<times> tree) list) \<times> state" where
  "unzip H zbytes s = (extractall H zbytes, s\<lparr>trace := trace s @ [Unzip zbytes]\<rparr>)"

definition flutter_bin :: "host \<Rightarrow> path \<Rightarrow> path" where
  "flutter_bin H flutter_root =
     flutter_root @ [''bin'', if is_windows H then ''flutter.bat'' else ''flutter'']"

definition sdkmanager_bin :: "host \<Rightarrow> path \<Rightarrow> path" where
  "sdkmanager_bin H android_sdk_root =
     android_sdk_root @ [''cmdline-tools'', ''latest'', ''bin'',
       if is_windows H then ''sdkmanager.bat'' else ''sdkmanager'']"

section \<open>pathlib and shutil on the file system\<close>

fun mkdir_from :: "path \<Rightarrow> path \<Rightarrow> filesys \<Rightarrow> error + filesys" where
  "mkdir_from pre [] f = Inr f"
| "mkdir_from pre (c # p) f =
     (case f (pre @ [c]) of
        Some (F _) \<Rightarrow> Inl (OSError (if p = [] then ''FileExistsError'' else ''NotADirectoryError''))
      | _ \<Rightarrow> mkdir_from (pre @ [c]) p (f(pre @ [c] \<mapsto> D)))"

definition mkdir_p :: "path \<Rightarrow> filesys \<Rightarrow> error + filesys" where
  \<comment> \<open>\<^verbatim>\<open>Path.mkdir(parents=True, exist_ok=True)\<close>: raises where a file is in the way\<close>
  "mkdir_p p f = mkdir_from [] p f"

definition copy2 :: "string \<Rightarrow> path \<Rightarrow> string \<Rightarrow> filesys \<Rightarrow> error + filesys" where
  \<comment> \<open>\<^verbatim>\<open>shutil.copy2(item, dir / name)\<close> of a file \<open>name\<close> holding \<open>c\<close>: a directory at
      the destination receives the file under its own name\<close>
  "copy2 c dir name f =
     (case f (dir @ [name]) of
        Some D \<Rightarrow>
          (case f (dir @ [name, name]) of
             Some D \<Rightarrow> Inl (OSError ''IsADirectoryError'')
           | _ \<Rightarrow> Inr (f(dir @ [name, name] \<mapsto> F c)))
      | _ \<Rightarrow> Inr (f(dir @ [name] \<mapsto> F c)))"

fun copy_items :: "(string \<times> tree) list \<Rightarrow> path \<Rightarrow> filesys \<Rightarrow> filesys \<times> bool" where
  "copy_items [] dst f = (f, False)"
| "copy_items ((name, TFile c) # rest) dst f =
     (case copy2 c dst name f of
        Inl e \<Rightarrow> (fst (copy_items rest dst f), True)
      | Inr f1 \<Rightarrow> copy_items rest dst f1)"
| "copy_items ((name, TDir sub) # rest) dst f =
     (case f (dst @ [name]) of
        Some (F _) \<Rightarrow> (fst (copy_items rest dst f), True)
      | _ \<Rightarrow>
          (let r1 = copy_items sub (dst @ [name]) (f(dst @ [name] \<mapsto> D));
               r2 = copy_items rest dst (fst r1)
           in (fst r2, snd r1 \<or> snd r2)))"

definition copytree :: "(string \<times> tree) list \<Rightarrow> path \<Rightarrow> filesys \<Rightarrow> error option \<times> filesys" where
  "copytree sub dst f =
     (case f dst of
        Some (F _) \<Rightarrow> (Some (OSError ''FileExistsError''), f)
      | _ \<Rightarrow>
          (let r = copy_items sub dst (f(dst \<mapsto> D))
           in (if snd r then Some (OSError ''shutil.Error'') else None, fst r)))"

fun place_items :: "(string \<times> tree) list \<Rightarrow> path \<Rightarrow> filesys \<Rightarrow> error option \<times> filesys" where
  "place_items [] latest f = (None, f)"
| "place_items ((name, TDir sub) # rest) latest f =
     (case copytree sub (latest @ [name]) f of
        (Some e, f1) \<Rightarrow> (Some e, f1)
      | (None, f1) \<Rightarrow> place_items rest latest f1)"
| "place_items ((name, TFile c) # rest) latest f =
     (case copy2 c latest name f of
        Inl e \<Rightarrow> (Some e, f)
      | Inr f1 \<Rightarrow> place_items rest latest f1)"

section \<open>The install steps\<close>

definition git_missing :: string where
  "git_missing = ''Git not found. Install Git and re-run.\<newline>Windows: winget install -e --id Git.Git\<newline>Linux: sudo apt install git''"

definition java_missing :: string where
  "java_missing = ''Java 17 not found on PATH. Install JDK 17 and re-run.\<newline>Linux: sudo apt install openjdk-17-jdk''"

definition plain_cmd :: "string list \<Rightarrow> path option \<Rightarrow> invocation" where
  \<comment> \<open>\<^verbatim>\<open>run_checked(argv, cwd=...)\<close> with the inherited environment and no input\<close>
  "plain_cmd args dir = \<lparr>argv = args, cwd = dir, penv = None, input_bytes = None\<rparr>"

definition winget_jdk_cmd :: invocation where
  "winget_jdk_cmd =
     plain_cmd [''winget'', ''install'', ''-e'', ''--id'', ''Microsoft.OpenJDK.17'', ''--silent'',
                ''--accept-package-agreements'', ''--accept-source-agreements''] None"

definition ensure_prereqs :: "host \<Rightarrow> state \<Rightarrow> (error + unit) \<times> state" where
  "ensure_prereqs H s =
     (if \<not> have_cmd s ''git'' then (Inl (SystemExit git_missing), s)
      else if have_cmd s ''java'' then (Inr (), s)
      else
        and_then
          (if is_windows H \<and> have_cmd s ''winget'' then
             (case run_checked H winget_jdk_cmd
                     (log ''Java 17 not found. Installing Microsoft OpenJDK 17 via winget...'' s) of
                (Inl e, s1) \<Rightarrow> if is_exception e then (Inr (), s1) else (Inl e, s1)
              | (Inr u, s1) \<Rightarrow> (Inr (), s1))
           else (Inr (), s))
          (\<lambda>_ s1. if \<not> have_cmd s1 ''java'' then (Inl (SystemExit java_missing), s1)
                   else (Inr (), s1)))"

definition flutter_repo :: string where
  "flutter_repo = ''https://github.com/flutter/flutter''"

definition clone_default_cmd :: "host \<Rightarrow> path \<Rightarrow> invocation" where
  "clone_default_cmd H flutter_root =
     plain_cmd [''git'', ''clone'', ''--depth'', ''1'', flutter_repo, path_str H flutter_root] None"

definition fetch_ref_cmd :: "path \<Rightarrow> string \<Rightarrow> invocation" where
  "fetch_ref_cmd flutter_root ref =
     plain_cmd [''git'', ''fetch'', ''origin'', ref, ''--depth'', ''1''] (Some flutter_root)"

definition checkout_cmd :: "path \<Rightarrow> string \<Rightarrow> invocation" where
  "checkout_cmd flutter_root ref = plain_cmd [''git'', ''checkout'', ref] (Some flutter_root)"

definition clone_channel_cmd :: "host \<Rightarrow> path \<Rightarrow> string \<Rightarrow> invocation" where
  "clone_channel_cmd H flutter_root channel =
     plain_cmd [''git'', ''clone'', ''--depth'', ''1'', ''-b'', channel, flutter_repo,
                path_str H flutter_root] None"

definition install_flutter ::
  "host \<Rightarrow> path \<Rightarrow> (string \<rightharpoonup> string) \<Rightarrow> state \<Rightarrow> (error + unit) \<times> state" where
  "install_flutter H flutter_root env_map s =
     (if path_exists s (flutter_bin H flutter_root) then
        (Inr (), log (''Flutter already present at '' @ path_str H flutter_root) s)
      else
        (let channel = env_get env_map ''FLUTTER_CHANNEL'' ''stable'';
             ref = strip (env_get env_map ''FLUTTER_REF'' []);
             s1 = log (''Installing Flutter into '' @ path_str H flutter_root @ '' ...'') s
         in case mkdir_p (butlast flutter_root) (fsys (world s1)) of
              Inl e \<Rightarrow> (Inl e, s1)
            | Inr f1 \<Rightarrow>
                if ref \<noteq> [] then
                  and_then (run_checked H (clone_default_cmd H flutter_root) (set_fsys f1 s1))
                    (\<lambda>_ s2. and_then (run_checked H (fetch_ref_cmd flutter_root ref) s2)
                      (\<lambda>_ s3. run_checked H (checkout_cmd flutter_root ref) s3))
                else run_checked H (clone_channel_cmd H flutter_root channel) (set_fsys f1 s1)))"

definition cmdline_url :: "host \<Rightarrow> string \<Rightarrow> string" where
  "cmdline_url H cmd_ver =
     ''https://dl.google.com/android/repository/commandlinetools-''
       @ (if is_windows H then ''win'' else ''linux'') @ ''-'' @ cmd_ver @ ''_latest.zip''"

definition install_android_cmdline ::
  "host \<Rightarrow> path \<Rightarrow> (string \<rightharpoonup> string) \<Rightarrow> state \<Rightarrow> (error + unit) \<times> state" where
  "install_android_cmdline H android_sdk env_map s =
     (if path_exists s (sdkmanager_bin H android_sdk) then
        (Inr (), log ''Android cmdline-tools already present.'' s)
      else
        (let cmd_ver = env_get env_map ''ANDROID_CMDLINE_TOOLS'' ''11076708'';
             url = cmdline_url H cmd_ver;
             s1 = log (''Installing Android cmdline-tools '' @ cmd_ver @ '' into ''
                        @ path_str H android_sdk @ '' ...'') s;
             latest = android_sdk @ [''cmdline-tools'', ''latest'']
         in case mkdir_p android_sdk (fsys (world s1)) of
              Inl e \<Rightarrow> (Inl e, s1)
            | Inr f1 \<Rightarrow>
               (case mkdir_p latest f1 of
                  Inl e \<Rightarrow> (Inl e, set_fsys f1 s1)
                | Inr f2 \<Rightarrow>
                    and_then (download H url (set_fsys f2 s1))
                      (\<lambda>zbytes s2. and_then (unzip H zbytes s2)
                        (\<lambda>extracted s3.
                           case map_of extracted ''cmdline-tools'' of
                             None \<Rightarrow> (Inl (OSError ''FileNotFoundError''), s3)
                           | Some (TFile _) \<Rightarrow> (Inl (OSError ''NotADirectoryError''), s3)
                           | Some (TDir items) \<Rightarrow>
                               (case place_items items latest (fsys (world s3)) of
                                  (Some e, f3) \<Rightarrow> (Inl e, set_fsys f3 s3)
                                | (None, f3) \<Rightarrow> (Inr (), set_fsys f3 s3)))))))"

definition sdk_env :: "host \<Rightarrow> path \<Rightarrow> (string \<times> string) list" where
  \<comment> \<open>\<^verbatim>\<open>os.environ.copy()\<close> with the two SDK roots and the extended PATH\<close>
  "sdk_env H android_sdk =
     (let e1 = AList.update ''ANDROID_SDK_ROOT'' (path_str H android_sdk) (environ H);
          e2 = AList.update ''ANDROID_HOME'' (path_str H android_sdk) e1
      in AList.update ''PATH''
           (join (if is_windows H then '';'' else '':'')
              [path_str H (android_sdk @ [''cmdline-tools'', ''latest'', ''bin'']),
               path_str H (android_sdk @ [''platform-tools'']),
               (case map_of e2 ''PATH'' of None \<Rightarrow> [] | Some v \<Rightarrow> v)])
           e2)"

definition license_cmd :: "host \<Rightarrow> path \<Rightarrow> invocation" where
  "license_cmd H android_sdk =
     \<lparr>argv = [path_str H (sdkmanager_bin H android_sdk),
              ''--sdk_root='' @ path_str H android_sdk, ''--licenses''],
      cwd = None, penv = Some (sdk_env H android_sdk),
      input_bytes = Some (concat (replicate 200 ''y\<newline>''))\<rparr>"

definition packages_cmd :: "host \<Rightarrow> path \<Rightarrow> (string \<rightharpoonup> string) \<Rightarrow> invocation" where
  "packages_cmd H android_sdk env_map =
     (let platform_id = env_get env_map ''ANDROID_PLATFORM'' ''android-34'';
          build_tools_id = env_get env_map ''ANDROID_BUILD_TOOLS'' ''34.0.0'';
          ndk_id = env_get env_map ''ANDROID_NDK'' ''26.1.10909125'';
          cmake_id = env_get env_map ''ANDROID_CMAKE'' ''3.22.1'';
          pkgs = [''platform-tools'', ''platforms;'' @ platform_id,
                  ''build-tools;'' @ build_tools_id, ''cmake;'' @ cmake_id, ''ndk;'' @ ndk_id]
      in \<lparr>argv = [path_str H (sdkmanager_bin H android_sdk),
                  ''--sdk_root='' @ path_str H android_sdk] @ pkgs,
          cwd = None, penv = Some (sdk_env H android_sdk), input_bytes = None\<rparr>)"

definition config_cmd :: "host \<Rightarrow> path \<Rightarrow> path \<Rightarrow> invocation" where
  "config_cmd H android_sdk flutter_root =
     \<lparr>argv = [path_str H (flutter_bin H flutter_root), ''config'', ''--android-sdk'',
              path_str H android_sdk],
      cwd = None, penv = Some (sdk_env H android_sdk), input_bytes = None\<rparr>"

definition precache_args :: "host \<Rightarrow> string list" where
  "precache_args H = [''--android''] @ (if is_windows H then [''--windows''] else [])"

definition precache_cmd :: "host \<Rightarrow> path \<Rightarrow> path \<Rightarrow> invocation" where
  "precache_cmd H android_sdk flutter_root =
     \<lparr>argv = [path_str H (flutter_bin H flutter_root), ''precache''] @ precache_args H,
      cwd = None, penv = Some (sdk_env H android_sdk), input_bytes = None\<rparr>"

definition accept_licenses :: "host \<Rightarrow> path \<Rightarrow> state \<Rightarrow> (error + unit) \<times> state" where
  \<comment> \<open>the \<^verbatim>\<open>try ... except Exception as e\<close> block of \<^verbatim>\<open>install_android_packages\<close>\<close>
  "accept_licenses H android_sdk s =
     (case run_checked H (license_cmd H android_sdk) s of
        (Inl e, s1) \<Rightarrow>
          if is_exception e then (Inr (), err (LicenseWarning e) s1) else (Inl e, s1)
      | (Inr u, s1) \<Rightarrow> (Inr (), s1))"

definition install_android_packages ::
  "host \<Rightarrow> path \<Rightarrow> (string \<rightharpoonup> string) \<Rightarrow> path \<Rightarrow> state \<Rightarrow> (error + unit) \<times> state" where
  "install_android_packages H android_sdk env_map flutter_root s =
     (if \<not> path_exists s (sdkmanager_bin H android_sdk) then
        (Inl (SdkmanagerNotFound (path_str H (sdkmanager_bin H android_sdk))), s)
      else
        and_then (accept_licenses H android_sdk (log ''Accepting Android licenses...'' s))
          (\<lambda>_ s1. and_then
             (run_checked H (packages_cmd H android_sdk env_map)
                (log ''Installing Android SDK components...'' s1))
             (\<lambda>_ s2. and_then
                (run_checked H (config_cmd H android_sdk flutter_root)
                   (log ''Configuring Flutter and precaching artifacts...'' s2))
                (\<lambda>_ s3. run_checked H (precache_cmd H android_sdk flutter_root) s3))))"

definition config_value :: "filesys \<Rightarrow> path \<Rightarrow> string \<Rightarrow> string \<Rightarrow> error + string" where
  \<comment> \<open>what a step reads for a key: \<^verbatim>\<open>env_map = load_env_file(".env")\<close> in \<^verbatim>\<open>main\<close>, then
      \<^verbatim>\<open>env_map.get(key, default)\<close> in the step\<close>
  "config_value f p k d =
     (case load_env_file f p of Inl e \<Rightarrow> Inl e | Inr m \<Rightarrow> Inr (env_get m k d))"

section \<open>Concrete hosts and states for the instances\<close>

definition demo_archive :: "(string \<times> tree) list" where
  "demo_archive =
     [(''cmdline-tools'',
        TDir [(''bin'', TDir [(''sdkmanager'', TFile ''launcher'')]),
              (''lib'', TDir [(''sdklib.jar'', TFile ''classes'')]),
              (''NOTICE'', TFile ''notice'')])]"

definition demo_host :: "bool \<Rightarrow> (string list \<Rightarrow> int) \<Rightarrow> host" where
  \<comment> \<open>a host whose subprocesses leave the world as it is and exit with \<open>code argv\<close>\<close>
  "demo_host win code =
     \<lparr>is_windows = win, environ = [(''PATH'', ''/usr/bin'')],
      popen = (\<lambda>c w. (Exited (code (argv c)) ''output'', w)),
      urlretrieve = (\<lambda>url. Inr ''zipped''),
      extractall = (\<lambda>zbytes. Inr demo_archive)\<rparr>"

definition demo_state :: "filesys \<Rightarrow> (string \<Rightarrow> bool) \<Rightarrow> state" where
  "demo_state f found = \<lparr>world = \<lparr>fsys = f, which = found\<rparr>, trace = [], out = [], errs = []\<rparr>"

definition demo_sdk :: path where
  "demo_sdk = [''repo'', ''.tooling'', ''android-sdk'']"

definition demo_flutter :: path where
  "demo_flutter = [''repo'', ''.tooling'', ''flutter'']"

fun contains :: "string \<Rightarrow> string \<Rightarrow> bool" where
  \<comment> \<open>\<^verbatim>\<open>p in s\<close> on text: \<open>p\<close> stands somewhere in \<open>s\<close>\<close>
  "contains [] p = (p = [])"
| "contains (c # cs) p = (startswith (c # cs) p \<or> contains cs p)"

section \<open>Reading an archive and a destination\<close>

fun tree_at :: "tree \<Rightarrow> path \<Rightarrow> tree option" where
  \<comment> \<open>what an extracted tree holds at a relative path\<close>
  "tree_at t [] = Some t"
| "tree_at t (c # p) =
     (case t of
        TFile _ \<Rightarrow> None
      | TDir es \<Rightarrow> (case map_of es c of None \<Rightarrow> None | Some t' \<Rightarrow> tree_at t' p))"

fun wf_items :: "(string \<times> tree) list \<Rightarrow> bool" where
  \<comment> \<open>a directory listing: no name twice in one directory\<close>
  "wf_items [] = True"
| "wf_items ((name, TFile c) # rest) = (name \<notin> fst ` set rest \<and> wf_items rest)"
| "wf_items ((name, TDir sub) # rest) =
     (name \<notin> fst ` set rest \<and> wf_items sub \<and> wf_items rest)"

fun no_clash :: "(string \<times> tree) list \<Rightarrow> path \<Rightarrow> filesys \<Rightarrow> bool" where
  \<comment> \<open>no file of the archive meets a directory of the destination at its path, and no
      directory of the archive meets a file\<close>
  "no_clash [] dst f = True"
| "no_clash ((name, TFile c) # rest) dst f =
     (f (dst @ [name]) \<noteq> Some D \<and> no_clash rest dst f)"
| "no_clash ((name, TDir sub) # rest) dst f =
     ((case f (dst @ [name]) of Some (F _) \<Rightarrow> False | _ \<Rightarrow> True) \<and>
      no_clash sub (dst @ [name]) f \<and> no_clash rest dst f)"

fun laid :: "tree option \<Rightarrow> entry option \<Rightarrow> entry option" where
  \<comment> \<open>what a path of the destination holds once the archive's entry (if any) is placed\<close>
  "laid (Some (TFile c)) old = Some (F c)"
| "laid (Some (TDir sub)) old = Some D"
| "laid None old = old"

definition merged :: "(string \<times> tree) list \<Rightarrow> path \<Rightarrow> filesys \<Rightarrow> filesys \<Rightarrow> bool" where
  \<comment> \<open>\<open>f'\<close> is \<open>f\<close> with the archive's entries laid over the directory \<open>dst\<close>: below \<open>dst\<close>
      a path of the archive holds the archive's file or a directory, every other path is
      as in \<open>f\<close>\<close>
  "merged items dst f f' =
     ((\<forall>p. p \<noteq> [] \<longrightarrow> f' (dst @ p) = laid (tree_at (TDir items) p) (f (dst @ p))) \<and>
      (\<forall>q. (\<forall>p. p \<noteq> [] \<longrightarrow> q \<noteq> dst @ p) \<longrightarrow> f' q = f q))"

definition demo_latest :: path where
  "demo_latest = demo_sdk @ [''cmdline-tools'', ''latest'']"

definition demo_fs :: filesys where
  \<comment> \<open>an SDK root whose cmdline-tools/latest holds a README and no sdkmanager\<close>
  "demo_fs =
     [[''repo''] \<mapsto> D, [''repo'', ''.tooling''] \<mapsto> D, demo_sdk \<mapsto> D,
      demo_sdk @ [''cmdline-tools''] \<mapsto> D, demo_latest \<mapsto> D,
      demo_latest @ [''README''] \<mapsto> F ''readme'',
      demo_latest @ [''NOTICE''] \<mapsto> F ''old notice'']"

definition demo_clash_fs :: filesys where
  \<comment> \<open>as \<open>demo_fs\<close>, but latest/NOTICE is a directory that holds a file NOTICE\<close>
  "demo_clash_fs =
     [[''repo''] \<mapsto> D, [''repo'', ''.tooling''] \<mapsto> D, demo_sdk \<mapsto> D,
      demo_sdk @ [''cmdline-tools''] \<mapsto> D, demo_latest \<mapsto> D,
      demo_latest @ [''NOTICE''] \<mapsto> D,
      demo_latest @ [''NOTICE'', ''NOTICE''] \<mapsto> F ''kept'']"

section \<open>Properties of the configuration loader\<close>

lemma dropWhile_all:
  "\<forall>x\<in>set t. P x \<Longrightarrow> dropWhile P t = []"
  by (induction t) auto

lemma dropWhile_hd_keep:
  "s = [] \<or> \<not> P (hd s) \<Longrightarrow> dropWhile P s = s"
  by (cases s) auto

lemma strip_chars_keep:
  assumes "s = [] \<or> (hd s \<noteq> c \<and> last s \<noteq> c)"
  shows "strip_chars c s = s"
proof -
  from assms have d: "dropWhile (\<lambda>y. y = c) s = s"
    by (intro dropWhile_hd_keep) auto
  from assms have "rev s = [] \<or> \<not> (hd (rev s) = c)"
    by (auto simp: hd_rev)
  then have "dropWhile (\<lambda>y. y = c) (rev s) = rev s"
    by (rule dropWhile_hd_keep)
  with d show ?thesis by (simp add: strip_chars_def)
qed

lemma strip_chars_wrapped:
  "strip_chars c (c # t @ [c]) = strip_chars c t"
proof (cases "\<forall>x\<in>set t. x = c")
  case True
  then have "\<forall>x\<in>set (t @ [c]). x = c" by simp
  then have a: "dropWhile (\<lambda>y. y = c) (t @ [c]) = []" by (rule dropWhile_all)
  from True have b: "dropWhile (\<lambda>y. y = c) t = []" by (rule dropWhile_all)
  have "strip_chars c (c # t @ [c]) = []"
    unfolding strip_chars_def by (simp add: a)
  moreover have "strip_chars c t = []"
    unfolding strip_chars_def by (simp add: b)
  ultimately show ?thesis by simp
next
  case False
  then obtain x where "x \<in> set t" "\<not> (\<lambda>y. y = c) x" by auto
  then have a: "dropWhile (\<lambda>y. y = c) (t @ [c]) = dropWhile (\<lambda>y. y = c) t @ [c]"
    by (rule dropWhile_append1)
  from False have "dropWhile (\<lambda>y. y = c) t \<noteq> []"
    by (simp add: dropWhile_eq_Nil_conv)
  then show ?thesis by (simp add: strip_chars_def a)
qed

lemma takeWhile_until:
  "c \<notin> set k \<Longrightarrow> takeWhile (\<lambda>x. x \<noteq> c) (k @ c # v) = k"
  by (induction k) auto

lemma dropWhile_until:
  "c \<notin> set k \<Longrightarrow> dropWhile (\<lambda>x. x \<noteq> c) (k @ c # v) = c # v"
  by (induction k) auto

lemma env_line_split:
  assumes "strip line = k @ CHR ''='' # v" and "CHR ''='' \<notin> set k"
    and "\<not> startswith k ''#''"
  shows "env_line line = Some (strip k, strip_chars dquote (strip_chars squote (strip v)))"
proof -
  let ?s = "strip line"
  from assms(1) have ne: "?s \<noteq> []" and mem: "CHR ''='' \<in> set ?s" by auto
  from assms(1,3) have nc: "\<not> startswith ?s ''#''"
    by (cases k) (auto simp: startswith_def)
  from assms(1,2) have tk: "takeWhile (\<lambda>x. x \<noteq> CHR ''='') ?s = k"
    by (simp add: takeWhile_until)
  from assms(1,2) have dk: "dropWhile (\<lambda>x. x \<noteq> CHR ''='') ?s = CHR ''='' # v"
    by (simp add: dropWhile_until)
  show ?thesis
    using ne mem nc tk dk by (simp add: env_line_def split_first_def Let_def)
qed

lemma env_loop_append:
  "env_loop m (xs @ ys) = env_loop (env_loop m xs) ys"
  by (induction xs arbitrary: m) (auto split: option.splits)

lemma env_loop_other_keys:
  "\<forall>l\<in>set ls. \<forall>v. env_line l \<noteq> Some (K, v) \<Longrightarrow> env_loop m ls K = m K"
  by (induction ls arbitrary: m) (auto split: option.splits)

lemma env_loop_last:
  assumes "env_line l = Some (K, V)"
    and "\<forall>l'\<in>set post. \<forall>v. env_line l' \<noteq> Some (K, v)"
  shows "env_loop m (pre @ [l] @ post) K = Some V"
  using assms by (simp add: env_loop_append env_loop_other_keys)

lemma strip_subset: "set (strip s) \<subseteq> set s"
proof -
  have "set (strip s) = set (dropWhile is_space (rev (dropWhile is_space s)))"
    by (simp add: strip_def)
  also have "\<dots> \<subseteq> set (rev (dropWhile is_space s))"
    by (auto dest: set_dropWhileD)
  also have "\<dots> \<subseteq> set s"
    by (auto dest: set_dropWhileD)
  finally show ?thesis .
qed

lemma env_line_skips:
  "strip line = [] \<or> startswith (strip line) ''#'' \<or> CHR ''='' \<notin> set line
     \<Longrightarrow> env_line line = None"
  using strip_subset [of line] by (auto simp: env_line_def Let_def)

lemma unquote_wrapped:
  assumes "q = squote \<or> q = dquote"
    and "t = [] \<or> (hd t \<notin> {squote, dquote} \<and> last t \<notin> {squote, dquote})"
  shows "strip_chars dquote (strip_chars squote (q # t @ [q])) = t"
proof -
  from assms(2) have ks: "strip_chars squote t = t" and kd: "strip_chars dquote t = t"
    by (auto intro: strip_chars_keep)
  from assms(1) show ?thesis
  proof
    assume "q = squote"
    then show ?thesis by (simp add: strip_chars_wrapped ks kd)
  next
    assume q: "q = dquote"
    have "strip_chars squote (dquote # t @ [dquote]) = dquote # t @ [dquote]"
      by (rule strip_chars_keep) simp
    with q show ?thesis by (simp add: strip_chars_wrapped kd)
  qed
qed

lemma env_loop_skip:
  "env_line line = None \<Longrightarrow> env_loop m (pre @ [line] @ post) = env_loop m (pre @ post)"
  by (simp add: env_loop_append)

text \<open>
  C8, as the code has it. The loader on a file whose text has the line \<open>line\<close> between
  the lines \<open>pre\<close> and \<open>post\<close>; it returns a mapping for every text. A blank line, a line
  whose stripped form starts with \<open>#\<close> and a line without \<open>=\<close> give no entry: the loader
  returns what it returns for the file without that line. On any other line the first
  \<open>=\<close> splits the key from the value, both are stripped, every leading and trailing
  single quote and then every leading and trailing double quote is taken off the value,
  and the mapping holds that value for the key unless a later line assigns the key again.
  A value \<open>q t q\<close> between two quotes \<open>q\<close> (single or double) resolves to \<open>t\<close> where \<open>t\<close>
  neither starts nor ends with a quote; the instance after the witness shows a value
  whose text starts and ends with a quote of the other kind.
\<close>

theorem env_line_parsing:
  assumes "f p = Some (F body)" and "splitlines body = pre @ [line] @ post"
  shows
    "(\<exists>m. load_env_file f p = Inr m) \<and>
     (strip line = [] \<or> startswith (strip line) ''#'' \<or> CHR ''='' \<notin> set line \<longrightarrow>
        env_line line = None \<and>
        load_env_file f p = Inr (env_loop Map.empty (pre @ post))) \<and>
     (strip line = k @ CHR ''='' # v \<and> CHR ''='' \<notin> set k \<and> \<not> startswith k ''#'' \<longrightarrow>
        env_line line = Some (strip k, strip_chars dquote (strip_chars squote (strip v))) \<and>
        ((\<forall>l\<in>set post. \<forall>x. env_line l \<noteq> Some (strip k, x)) \<longrightarrow>
           (\<exists>m. load_env_file f p = Inr m \<and>
                m (strip k) = Some (strip_chars dquote (strip_chars squote (strip v)))))) \<and>
     (strip line = k @ CHR ''='' # v \<and> CHR ''='' \<notin> set k \<and> \<not> startswith k ''#'' \<and>
      (q = squote \<or> q = dquote) \<and> strip v = q # t @ [q] \<and>
      (t = [] \<or> (hd t \<notin> {squote, dquote} \<and> last t \<notin> {squote, dquote})) \<longrightarrow>
        env_line line = Some (strip k, t) \<and>
        ((\<forall>l\<in>set post. \<forall>x. env_line l \<noteq> Some (strip k, x)) \<longrightarrow>
           (\<exists>m. load_env_file f p = Inr m \<and> m (strip k) = Some t)))"
proof -
  have ld: "load_env_file f p = Inr (env_loop Map.empty (pre @ [line] @ post))"
    using assms by (simp add: load_env_file_def)
  have a: "\<exists>m. load_env_file f p = Inr m" by (simp add: ld)
  have b: "strip line = [] \<or> startswith (strip line) ''#'' \<or> CHR ''='' \<notin> set line \<longrightarrow>
        env_line line = None \<and>
        load_env_file f p = Inr (env_loop Map.empty (pre @ post))"
  proof
    assume "strip line = [] \<or> startswith (strip line) ''#'' \<or> CHR ''='' \<notin> set line"
    then have n: "env_line line = None" by (rule env_line_skips)
    from env_loop_skip [OF n] ld n
    show "env_line line = None \<and> load_env_file f p = Inr (env_loop Map.empty (pre @ post))"
      by simp
  qed
  have holds: "\<exists>m. load_env_file f p = Inr m \<and> m key = Some val"
    if "env_line line = Some (key, val)" "\<forall>l\<in>set post. \<forall>x. env_line l \<noteq> Some (key, x)"
    for key val
    using env_loop_last [OF that, of Map.empty pre] by (simp add: ld)
  have c: "strip line = k @ CHR ''='' # v \<and> CHR ''='' \<notin> set k \<and> \<not> startswith k ''#'' \<longrightarrow>
        env_line line = Some (strip k, strip_chars dquote (strip_chars squote (strip v))) \<and>
        ((\<forall>l\<in>set post. \<forall>x. env_line l \<noteq> Some (strip k, x)) \<longrightarrow>
           (\<exists>m. load_env_file f p = Inr m \<and>
                m (strip k) = Some (strip_chars dquote (strip_chars squote (strip v)))))"
  proof (intro impI conjI; elim conjE)
    assume s: "strip line = k @ CHR ''='' # v" "CHR ''='' \<notin> set k" "\<not> startswith k ''#''"
    from s show e: "env_line line =
        Some (strip k, strip_chars dquote (strip_chars squote (strip v)))"
      by (rule env_line_split)
    assume "\<forall>l\<in>set post. \<forall>x. env_line l \<noteq> Some (strip k, x)"
    with e show "\<exists>m. load_env_file f p = Inr m \<and>
        m (strip k) = Some (strip_chars dquote (strip_chars squote (strip v)))"
      by (rule holds)
  qed
  have d: "strip line = k @ CHR ''='' # v \<and> CHR ''='' \<notin> set k \<and> \<not> startswith k ''#'' \<and>
      (q = squote \<or> q = dquote) \<and> strip v = q # t @ [q] \<and>
      (t = [] \<or> (hd t \<notin> {squote, dquote} \<and> last t \<notin> {squote, dquote})) \<longrightarrow>
        env_line line = Some (strip k, t) \<and>
        ((\<forall>l\<in>set post. \<forall>x. env_line l \<noteq> Some (strip k, x)) \<longrightarrow>
           (\<exists>m. load_env_file f p = Inr m \<and> m (strip k) = Some t))"
  proof (intro impI conjI; elim conjE)
    assume s: "strip line = k @ CHR ''='' # v" "CHR ''='' \<notin> set k" "\<not> startswith k ''#''"
      and q: "q = squote \<or> q = dquote" and v: "strip v = q # t @ [q]"
      and t: "t = [] \<or> (hd t \<notin> {squote, dquote} \<and> last t \<notin> {squote, dquote})"
    from s have "env_line line = Some (strip k, strip_chars dquote (strip_chars squote (strip v)))"
      by (rule env_line_split)
    with unquote_wrapped [OF q t] v show e: "env_line line = Some (strip k, t)" by simp
    assume "\<forall>l\<in>set post. \<forall>x. env_line l \<noteq> Some (strip k, x)"
    with e show "\<exists>m. load_env_file f p = Inr m \<and> m (strip k) = Some t"
      by (rule holds)
  qed
  from a b c d show ?thesis by (intro conjI)
qed

theorem env_line_parsing_witness:
  "load_env_file [[''.env''] \<mapsto> F ''  # comment\<newline>\<newline>FOO''] [''.env''] = Inr Map.empty \<and>
   (\<exists>m. load_env_file [[''.env''] \<mapsto> F ''# c\<newline>A = B=C\<newline>FOO=\"bar\"''] [''.env''] = Inr m \<and>
        m ''A'' = Some ''B=C'') \<and>
   (\<exists>m. load_env_file [[''.env''] \<mapsto> F ''# c\<newline>A = B=C\<newline>FOO=\"bar\"''] [''.env''] = Inr m \<and>
        m ''FOO'' = Some ''bar'')"
proof -
  let ?f1 = "[[''.env''] \<mapsto> F ''  # comment\<newline>\<newline>FOO'']"
  let ?f2 = "[[''.env''] \<mapsto> F ''# c\<newline>A = B=C\<newline>FOO=\"bar\"'']"
  have s1: "splitlines ''  # comment\<newline>\<newline>FOO'' = [''  # comment'', []] @ [''FOO''] @ []"
    and s2: "splitlines ''# c\<newline>A = B=C\<newline>FOO=\"bar\"'' = [''# c''] @ [''A = B=C''] @ [''FOO=\"bar\"'']"
    and s3: "splitlines ''# c\<newline>A = B=C\<newline>FOO=\"bar\"'' = [''# c'', ''A = B=C''] @ [''FOO=\"bar\"''] @ []"
    by (simp_all add: splitlines_def is_linebreak_def)
  have l: "env_line ''  # comment'' = None" "env_line [] = None"
    "\<forall>l\<in>set [''FOO=\"bar\"'']. \<forall>x. env_line l \<noteq> Some (''A'', x)"
    by (simp_all add: env_line_def strip_def startswith_def is_space_def strip_chars_def
          split_first_def)
  have st: "strip ''FOO'' = ''FOO''" "strip ''A = B=C'' = ''A '' @ CHR ''='' # '' B=C''"
    "strip ''A '' = ''A''" "strip '' B=C'' = ''B=C''"
    "strip ''FOO=\"bar\"'' = ''FOO'' @ CHR ''='' # ''\"bar\"''" "strip ''\"bar\"'' = dquote # ''bar'' @ [dquote]"
    by (simp_all add: strip_def is_space_def)
  have sc: "strip_chars dquote (strip_chars squote ''B=C'') = ''B=C''"
    by (simp add: strip_chars_def)
  from env_line_parsing [of ?f1 "[''.env'']" _ _ "''FOO''" _, OF _ s1]
  have a: "load_env_file ?f1 [''.env''] = Inr Map.empty"
    by (simp add: st l)
  from env_line_parsing [of ?f2 "[''.env'']" _ _ "''A = B=C''" _ "''A ''" "'' B=C''", OF _ s2]
  have b: "\<exists>m. load_env_file ?f2 [''.env''] = Inr m \<and> m ''A'' = Some ''B=C''"
    by (simp add: st l sc startswith_def)
  from env_line_parsing [of ?f2 "[''.env'']" _ _ "''FOO=\"bar\"''" _ "''FOO''" "''\"bar\"''" dquote "''bar''",
      OF _ s3]
  have c: "\<exists>m. load_env_file ?f2 [''.env''] = Inr m \<and> m ''FOO'' = Some ''bar''"
    by (simp add: st startswith_def)
  from a b c show ?thesis by (intro conjI)
qed

theorem env_line_parsing_counterexample:
  "env_line (''A='' @ squote # (dquote # ''b'' @ [dquote]) @ [squote]) = Some (''A'', ''b'') \<and>
   config_value [[''.env''] \<mapsto> F (''A='' @ squote # (dquote # ''b'' @ [dquote]) @ [squote])]
     [''.env''] ''A'' ''none'' = Inr ''b'' \<and>
   ''b'' \<noteq> dquote # ''b'' @ [dquote]"
  by (simp add: splitlines_def is_linebreak_def env_line_def strip_def startswith_def
        is_space_def strip_chars_def split_first_def config_value_def load_env_file_def
        env_get_def)

text \<open>
  C10. Where a key stands on several well-formed lines of the override file, the mapping
  holds the value of the last of them, and the loader returns the mapping: it has no
  error and no output for the repeated key.
\<close>

theorem duplicate_key_last_wins:
  assumes "f p = Some (F text)"
    and "splitlines text = pre @ [l1] @ mid @ [l2] @ post"
    and "env_line l1 = Some (K, v1)"
    and "env_line l2 = Some (K, v2)"
    and "\<forall>l\<in>set post. \<forall>v. env_line l \<noteq> Some (K, v)"
  shows "\<exists>m. load_env_file f p = Inr m \<and> m K = Some v2"
proof -
  have "env_loop Map.empty ((pre @ [l1] @ mid) @ [l2] @ post) K = Some v2"
    using assms(4,5) by (rule env_loop_last)
  with assms(1,2) show ?thesis by (simp add: load_env_file_def)
qed

theorem duplicate_key_last_wins_witness:
  "\<exists>m. load_env_file [[''.env''] \<mapsto> F ''A=1\<newline>B=0\<newline>A=2\<newline># end'']
          [''.env''] = Inr m \<and> m ''A'' = Some ''2''"
proof -
  have sp: "splitlines ''A=1\<newline>B=0\<newline>A=2\<newline># end'' = [] @ [''A=1''] @ [''B=0''] @ [''A=2''] @ [''# end'']"
    by (simp add: splitlines_def is_linebreak_def)
  have l1: "env_line ''A=1'' = Some (''A'', ''1'')"
    and l2: "env_line ''A=2'' = Some (''A'', ''2'')"
    and l3: "\<forall>l\<in>set [''# end'']. \<forall>v. env_line l \<noteq> Some (''A'', v)"
    by (simp_all add: env_line_def strip_def startswith_def is_space_def strip_chars_def
          split_first_def)
  show ?thesis
    using duplicate_key_last_wins [OF _ sp l1 l2 l3, of "[[''.env''] \<mapsto> F ''A=1\<newline>B=0\<newline>A=2\<newline># end'']" "[''.env'']"]
    by simp
qed



section \<open>Properties of the runner\<close>

lemma log_fields [simp]:
  "world (log msg s) = world s" "trace (log msg s) = trace s"
  "errs (log msg s) = errs s" "out (log msg s) = out s @ [msg]"
  by (simp_all add: log_def)

lemma err_fields [simp]:
  "world (err msg s) = world s" "trace (err msg s) = trace s"
  "errs (err msg s) = errs s @ [msg]" "out (err msg s) = out s"
  by (simp_all add: err_def)

lemma set_fsys_fields [simp]:
  "fsys (world (set_fsys f s)) = f" "which (world (set_fsys f s)) = which (world s)"
  "trace (set_fsys f s) = trace s" "errs (set_fsys f s) = errs s" "out (set_fsys f s) = out s"
  by (simp_all add: set_fsys_def)

lemma path_exists_log [simp]: "path_exists (log msg s) p = path_exists s p"
  by (simp add: path_exists_def)

lemma have_cmd_log [simp]: "have_cmd (log msg s) name = have_cmd s name"
  by (simp add: have_cmd_def)

lemma run_checked_trace [simp]:
  "trace (snd (run_checked H c s)) = trace s @ [Run c]"
  by (simp add: run_checked_def Let_def split: prod.splits outcome.splits)

lemma run_checked_world [simp]:
  "world (snd (run_checked H c s)) = snd (popen H c (world s))"
  by (simp add: run_checked_def Let_def split: prod.splits outcome.splits)

lemma run_checked_exit:
  "popen H c (world s) = (Exited rc text, w) \<Longrightarrow>
     fst (run_checked H c s) = (if rc \<noteq> 0 then Inl (CommandFailed (argv c)) else Inr ())"
  by (simp add: run_checked_def Let_def)

lemma run_checked_errs:
  "popen H c (world s) = (Exited rc text, w) \<Longrightarrow> rc \<noteq> 0 \<Longrightarrow>
     errs (snd (run_checked H c s)) = errs s @ [ErrText text]"
  by (simp add: run_checked_def Let_def)

lemma run_checked_exception:
  "fst (run_checked H c s) = Inl e \<Longrightarrow> is_exception e"
  by (auto simp: run_checked_def Let_def split: prod.splits outcome.splits if_splits)

lemma and_then_Inl: "fst r = Inl e \<Longrightarrow> and_then r g = (Inl e, snd r)"
  by (cases r) (simp add: and_then_def)

lemma and_then_Inr: "fst r = Inr x \<Longrightarrow> and_then r g = g x (snd r)"
  by (cases r) (simp add: and_then_def)

lemma accept_licenses_cases:
  "accept_licenses H android_sdk s =
     (case fst (run_checked H (license_cmd H android_sdk) s) of
        Inl e \<Rightarrow> (Inr (), err (LicenseWarning e) (snd (run_checked H (license_cmd H android_sdk) s)))
      | Inr u \<Rightarrow> (Inr (), snd (run_checked H (license_cmd H android_sdk) s)))"
proof (cases "run_checked H (license_cmd H android_sdk) s")
  case (Pair r s1)
  show ?thesis
  proof (cases r)
    case (Inl e)
    with Pair have "fst (run_checked H (license_cmd H android_sdk) s) = Inl e" by simp
    then have "is_exception e" by (rule run_checked_exception)
    with Pair Inl show ?thesis by (simp add: accept_licenses_def)
  next
    case (Inr u)
    with Pair show ?thesis by (simp add: accept_licenses_def)
  qed
qed

lemma accept_licenses_ok [simp]: "fst (accept_licenses H android_sdk s) = Inr ()"
  by (simp add: accept_licenses_cases split: sum.splits)

lemma accept_licenses_trace [simp]:
  "trace (snd (accept_licenses H android_sdk s)) = trace s @ [Run (license_cmd H android_sdk)]"
  by (simp add: accept_licenses_cases split: sum.splits)

lemma accept_licenses_world [simp]:
  "world (snd (accept_licenses H android_sdk s)) =
     snd (popen H (license_cmd H android_sdk) (world s))"
  by (simp add: accept_licenses_cases split: sum.splits)

lemma cmds_differ:
  "config_cmd H android_sdk flutter_root \<noteq> license_cmd H android_sdk"
  "config_cmd H android_sdk flutter_root \<noteq> packages_cmd H android_sdk env_map"
  "precache_cmd H android_sdk flutter_root \<noteq> license_cmd H android_sdk"
  "precache_cmd H android_sdk flutter_root \<noteq> packages_cmd H android_sdk env_map"
  "packages_cmd H android_sdk env_map \<noteq> license_cmd H android_sdk"
  by (auto simp: config_cmd_def license_cmd_def packages_cmd_def precache_cmd_def
        precache_args_def Let_def)

text \<open>The subprocesses of install\_android\_packages, in order; success runs all four.\<close>

lemma packages_trace:
  assumes "path_exists s (sdkmanager_bin H android_sdk)"
  shows "\<exists>n\<ge>2. trace (snd (install_android_packages H android_sdk env_map flutter_root s)) =
           trace s @ take n [Run (license_cmd H android_sdk),
                             Run (packages_cmd H android_sdk env_map),
                             Run (config_cmd H android_sdk flutter_root),
                             Run (precache_cmd H android_sdk flutter_root)] \<and>
         (fst (install_android_packages H android_sdk env_map flutter_root s) = Inr () \<longrightarrow> n = 4)"
proof -
  let ?lic = "accept_licenses H android_sdk (log ''Accepting Android licenses...'' s)"
  let ?pk = "run_checked H (packages_cmd H android_sdk env_map)
               (log ''Installing Android SDK components...'' (snd ?lic))"
  let ?cf = "run_checked H (config_cmd H android_sdk flutter_root)
               (log ''Configuring Flutter and precaching artifacts...'' (snd ?pk))"
  let ?pc = "run_checked H (precache_cmd H android_sdk flutter_root) (snd ?cf)"
  let ?r = "install_android_packages H android_sdk env_map flutter_root s"
  have r0: "?r = and_then ?pk (\<lambda>_ s2. and_then
                (run_checked H (config_cmd H android_sdk flutter_root)
                   (log ''Configuring Flutter and precaching artifacts...'' s2))
                (\<lambda>_ s3. run_checked H (precache_cmd H android_sdk flutter_root) s3))"
    using assms by (simp add: install_android_packages_def and_then_Inr [of ?lic "()"])
  show ?thesis
  proof (cases "fst ?pk")
    case (Inl e)
    with r0 have "?r = (Inl e, snd ?pk)" by (simp add: and_then_Inl)
    then show ?thesis by (intro exI [of _ 2]) simp
  next
    case pk: (Inr u)
    with r0 have r1: "?r = and_then ?cf (\<lambda>_ s3. run_checked H (precache_cmd H android_sdk flutter_root) s3)"
      by (simp add: and_then_Inr)
    show ?thesis
    proof (cases "fst ?cf")
      case (Inl e)
      with r1 have "?r = (Inl e, snd ?cf)" by (simp add: and_then_Inl)
      then show ?thesis by (intro exI [of _ 3]) simp
    next
      case (Inr u')
      with r1 have "?r = ?pc" by (simp add: and_then_Inr)
      then show ?thesis by (intro exI [of _ 4]) simp
    qed
  qed
qed

lemma argv_license:
  "argv (license_cmd H android_sdk) =
     [path_str H (sdkmanager_bin H android_sdk), ''--sdk_root='' @ path_str H android_sdk,
      ''--licenses'']"
  by (simp add: license_cmd_def)

lemma argv_packages:
  "argv (packages_cmd H android_sdk env_map) =
     [path_str H (sdkmanager_bin H android_sdk), ''--sdk_root='' @ path_str H android_sdk,
      ''platform-tools'',
      ''platforms;'' @ env_get env_map ''ANDROID_PLATFORM'' ''android-34'',
      ''build-tools;'' @ env_get env_map ''ANDROID_BUILD_TOOLS'' ''34.0.0'',
      ''cmake;'' @ env_get env_map ''ANDROID_CMAKE'' ''3.22.1'',
      ''ndk;'' @ env_get env_map ''ANDROID_NDK'' ''26.1.10909125'']"
  by (simp add: packages_cmd_def Let_def)

lemma argv_config:
  "argv (config_cmd H android_sdk flutter_root) =
     [path_str H (flutter_bin H flutter_root), ''config'', ''--android-sdk'',
      path_str H android_sdk]"
  by (simp add: config_cmd_def)

lemma argv_precache:
  "argv (precache_cmd H android_sdk flutter_root) =
     [path_str H (flutter_bin H flutter_root), ''precache''] @ precache_args H"
  by (simp add: precache_cmd_def)

section \<open>The install steps: skipping, failure and the commands issued\<close>

text \<open>
  C1. When the marker of install\_flutter (the flutter executable under the flutter root)
  or of install\_android\_cmdline (sdkmanager under cmdline-tools/latest/bin) exists, the
  step returns at once with one more line on stdout: the world (the file system and the
  commands on PATH) and the trace of subprocesses, downloads and extractions are those it
  started with, so the marker still exists and the next run skips again.
\<close>

theorem marker_present_is_skip:
  "(path_exists s (flutter_bin H flutter_root) \<longrightarrow>
      install_flutter H flutter_root env_map s =
        (Inr (), log (''Flutter already present at '' @ path_str H flutter_root) s)) \<and>
   (path_exists s (sdkmanager_bin H android_sdk) \<longrightarrow>
      install_android_cmdline H android_sdk env_map s =
        (Inr (), log ''Android cmdline-tools already present.'' s)) \<and>
   world (log msg s) = world s \<and> trace (log msg s) = trace s \<and>
   errs (log msg s) = errs s \<and> path_exists (log msg s) p = path_exists s p"
  by (simp add: install_flutter_def install_android_cmdline_def)

theorem marker_present_is_skip_witness:
  "install_flutter (demo_host False (\<lambda>a. 1)) demo_flutter Map.empty
     (demo_state [demo_flutter @ [''bin'', ''flutter''] \<mapsto> F ''sh''] (\<lambda>n. True)) =
     (Inr (), log ''Flutter already present at /repo/.tooling/flutter''
        (demo_state [demo_flutter @ [''bin'', ''flutter''] \<mapsto> F ''sh''] (\<lambda>n. True))) \<and>
   install_android_cmdline (demo_host True (\<lambda>a. 1)) demo_sdk Map.empty
     (demo_state [demo_sdk @ [''cmdline-tools'', ''latest'', ''bin'', ''sdkmanager.bat''] \<mapsto> F ''bat'']
        (\<lambda>n. True)) =
     (Inr (), log ''Android cmdline-tools already present.''
        (demo_state [demo_sdk @ [''cmdline-tools'', ''latest'', ''bin'', ''sdkmanager.bat''] \<mapsto> F ''bat'']
           (\<lambda>n. True)))"
  using marker_present_is_skip [where H = "demo_host False (\<lambda>a. 1)" and flutter_root = demo_flutter
      and env_map = "Map.empty"
      and s = "demo_state [demo_flutter @ [''bin'', ''flutter''] \<mapsto> F ''sh''] (\<lambda>n. True)"]
    marker_present_is_skip [where H = "demo_host True (\<lambda>a. 1)" and android_sdk = demo_sdk
      and env_map = "Map.empty"
      and s = "demo_state [demo_sdk @ [''cmdline-tools'', ''latest'', ''bin'', ''sdkmanager.bat''] \<mapsto> F ''bat'']
                 (\<lambda>n. True)"]
  by (simp add: path_exists_def flutter_bin_def sdkmanager_bin_def demo_host_def demo_state_def
        demo_flutter_def demo_sdk_def path_str_def)

text \<open>
  C2. In install\_android\_packages, when the package installation (the sdkmanager call
  that lists platform-tools, the platform, build-tools, cmake and ndk), run in the world
  the license call left, exits with a code other than 0, the step raises the failure of
  that command, and the only subprocesses it started are the license call and the
  package call: neither flutter config nor flutter precache is among them.
\<close>

theorem packages_failure_aborts:
  assumes "path_exists s (sdkmanager_bin H android_sdk)"
    and "popen H (packages_cmd H android_sdk env_map)
           (snd (popen H (license_cmd H android_sdk) (world s))) = (Exited rc text, w)"
    and "rc \<noteq> 0"
  shows "fst (install_android_packages H android_sdk env_map flutter_root s) =
           Inl (CommandFailed (argv (packages_cmd H android_sdk env_map))) \<and>
         trace (snd (install_android_packages H android_sdk env_map flutter_root s)) =
           trace s @ [Run (license_cmd H android_sdk), Run (packages_cmd H android_sdk env_map)] \<and>
         Run (config_cmd H android_sdk flutter_root) \<notin>
           set [Run (license_cmd H android_sdk), Run (packages_cmd H android_sdk env_map)] \<and>
         Run (precache_cmd H android_sdk flutter_root) \<notin>
           set [Run (license_cmd H android_sdk), Run (packages_cmd H android_sdk env_map)]"
proof -
  let ?lic = "accept_licenses H android_sdk (log ''Accepting Android licenses...'' s)"
  let ?s1 = "log ''Installing Android SDK components...'' (snd ?lic)"
  let ?pk = "run_checked H (packages_cmd H android_sdk env_map) ?s1"
  from assms(2) have "popen H (packages_cmd H android_sdk env_map) (world ?s1) = (Exited rc text, w)"
    by simp
  with assms(3) have pk: "fst ?pk = Inl (CommandFailed (argv (packages_cmd H android_sdk env_map)))"
    by (simp add: run_checked_exit)
  have "install_android_packages H android_sdk env_map flutter_root s =
          (Inl (CommandFailed (argv (packages_cmd H android_sdk env_map))), snd ?pk)"
    using assms(1) pk
    by (simp add: install_android_packages_def and_then_Inr [of ?lic "()"] and_then_Inl)
  then show ?thesis by (simp add: cmds_differ)
qed

theorem packages_failure_aborts_witness:
  "fst (install_android_packages (demo_host False (\<lambda>a. if ''--licenses'' \<in> set a then 0 else 1))
          demo_sdk Map.empty demo_flutter
          (demo_state [sdkmanager_bin (demo_host False (\<lambda>a. 0)) demo_sdk \<mapsto> F ''sh''] (\<lambda>n. True))) =
     Inl (CommandFailed [''/repo/.tooling/android-sdk/cmdline-tools/latest/bin/sdkmanager'',
            ''--sdk_root=/repo/.tooling/android-sdk'', ''platform-tools'',
            ''platforms;android-34'', ''build-tools;34.0.0'', ''cmake;3.22.1'',
            ''ndk;26.1.10909125''])"
  using packages_failure_aborts [where H = "demo_host False (\<lambda>a. if ''--licenses'' \<in> set a then 0 else 1)"
      and android_sdk = demo_sdk and env_map = "Map.empty" and flutter_root = demo_flutter
      and s = "demo_state [sdkmanager_bin (demo_host False (\<lambda>a. 0)) demo_sdk \<mapsto> F ''sh''] (\<lambda>n. True)"
      and rc = 1 and w = "\<lparr>fsys = [sdkmanager_bin (demo_host False (\<lambda>a. 0)) demo_sdk \<mapsto> F ''sh''],
                           which = (\<lambda>n. True)\<rparr>"]
  by (simp add: path_exists_def sdkmanager_bin_def demo_host_def demo_state_def demo_sdk_def
        path_str_def packages_cmd_def license_cmd_def env_get_def)

text \<open>
  C3. In install\_android\_packages, when the license call (sdkmanager --licenses, fed
  200 lines of \<open>y\<close>) exits with a code other than 0, the try block ends without an error:
  the captured output and the warning go to stderr, the package installation is the next
  subprocess started, and where every other subprocess exits with 0 the step completes.
\<close>

theorem license_failure_contained:
  assumes "path_exists s (sdkmanager_bin H android_sdk)"
    and "popen H (license_cmd H android_sdk) (world s) = (Exited rc text, w)"
    and "rc \<noteq> 0"
  shows "fst (accept_licenses H android_sdk (log ''Accepting Android licenses...'' s)) = Inr () \<and>
         errs (snd (accept_licenses H android_sdk (log ''Accepting Android licenses...'' s))) =
           errs s @ [ErrText text,
                     LicenseWarning (CommandFailed (argv (license_cmd H android_sdk)))] \<and>
         (\<exists>rest. trace (snd (install_android_packages H android_sdk env_map flutter_root s)) =
            trace s @ Run (license_cmd H android_sdk) #
              Run (packages_cmd H android_sdk env_map) # rest) \<and>
         ((\<forall>c\<in>{packages_cmd H android_sdk env_map, config_cmd H android_sdk flutter_root,
                precache_cmd H android_sdk flutter_root}.
             \<forall>w'. \<exists>t w''. popen H c w' = (Exited 0 t, w'')) \<longrightarrow>
            fst (install_android_packages H android_sdk env_map flutter_root s) = Inr ())"
proof -
  let ?s0 = "log ''Accepting Android licenses...'' s"
  let ?lic = "accept_licenses H android_sdk ?s0"
  let ?r = "install_android_packages H android_sdk env_map flutter_root s"
  from assms(2) have p: "popen H (license_cmd H android_sdk) (world ?s0) = (Exited rc text, w)"
    by simp
  from p assms(3) have f: "fst (run_checked H (license_cmd H android_sdk) ?s0) =
      Inl (CommandFailed (argv (license_cmd H android_sdk)))"
    by (simp add: run_checked_exit)
  from p assms(3) have e: "errs (snd (run_checked H (license_cmd H android_sdk) ?s0)) =
      errs s @ [ErrText text]"
    by (simp add: run_checked_errs)
  have a: "errs (snd ?lic) =
      errs s @ [ErrText text, LicenseWarning (CommandFailed (argv (license_cmd H android_sdk)))]"
    by (simp add: accept_licenses_cases f e)
  obtain n where n: "2 \<le> n"
    and tr: "trace (snd ?r) =
      trace s @ take n [Run (license_cmd H android_sdk), Run (packages_cmd H android_sdk env_map),
                        Run (config_cmd H android_sdk flutter_root),
                        Run (precache_cmd H android_sdk flutter_root)]"
    using packages_trace [OF assms(1), of env_map flutter_root] by blast
  from n obtain k where "n = Suc (Suc k)" by (auto simp: numeral_2_eq_2 Suc_le_eq dest: less_imp_Suc_add)
  with tr have b: "\<exists>rest. trace (snd ?r) =
      trace s @ Run (license_cmd H android_sdk) # Run (packages_cmd H android_sdk env_map) # rest"
    by simp
  have c: "fst ?r = Inr ()"
    if ok: "\<forall>c\<in>{packages_cmd H android_sdk env_map, config_cmd H android_sdk flutter_root,
                precache_cmd H android_sdk flutter_root}.
             \<forall>w'. \<exists>t w''. popen H c w' = (Exited 0 t, w'')"
  proof -
    have run: "fst (run_checked H c s') = Inr ()"
      if "c \<in> {packages_cmd H android_sdk env_map, config_cmd H android_sdk flutter_root,
                precache_cmd H android_sdk flutter_root}" for c s'
    proof -
      from ok that obtain t w'' where "popen H c (world s') = (Exited 0 t, w'')" by blast
      then show ?thesis by (simp add: run_checked_exit)
    qed
    show ?thesis
      using assms(1)
      by (simp add: install_android_packages_def and_then_Inr [of ?lic "()"]
            and_then_Inr [of _ "()"] run)
  qed
  from c have c': "(\<forall>c\<in>{packages_cmd H android_sdk env_map, config_cmd H android_sdk flutter_root,
                precache_cmd H android_sdk flutter_root}.
             \<forall>w'. \<exists>t w''. popen H c w' = (Exited 0 t, w'')) \<longrightarrow> fst ?r = Inr ()"
    by (rule impI)
  have d: "fst ?lic = Inr ()" by simp
  from d a b c' show ?thesis by (intro conjI)
qed

theorem license_failure_contained_witness:
  "fst (install_android_packages (demo_host False (\<lambda>a. if ''--licenses'' \<in> set a then 1 else 0))
          demo_sdk Map.empty demo_flutter
          (demo_state [sdkmanager_bin (demo_host False (\<lambda>a. 0)) demo_sdk \<mapsto> F ''sh''] (\<lambda>n. True))) =
     Inr ()"
proof -
  let ?H = "demo_host False (\<lambda>a. if ''--licenses'' \<in> set a then 1 else 0)"
  let ?f = "[sdkmanager_bin (demo_host False (\<lambda>a. 0)) demo_sdk \<mapsto> F ''sh'']"
  let ?s = "demo_state ?f (\<lambda>n. True)"
  have h1: "path_exists ?s (sdkmanager_bin ?H demo_sdk)"
    by (simp add: path_exists_def sdkmanager_bin_def demo_host_def demo_state_def)
  have h2: "popen ?H (license_cmd ?H demo_sdk) (world ?s) =
              (Exited 1 ''output'', \<lparr>fsys = ?f, which = (\<lambda>n. True)\<rparr>)"
    by (simp add: demo_host_def demo_state_def argv_license path_str_def sdkmanager_bin_def
          demo_sdk_def)
  have h3: "\<forall>c\<in>{packages_cmd ?H demo_sdk Map.empty, config_cmd ?H demo_sdk demo_flutter,
                precache_cmd ?H demo_sdk demo_flutter}.
             \<forall>w'. \<exists>t w''. popen ?H c w' = (Exited 0 t, w'')"
    by (simp add: demo_host_def argv_packages argv_config argv_precache precache_args_def
          env_get_def path_str_def flutter_bin_def sdkmanager_bin_def demo_sdk_def
          demo_flutter_def)
  from license_failure_contained [OF h1 h2, of Map.empty demo_flutter] h3
  show ?thesis by simp
qed

text \<open>
  C9. The precache call that ends install\_android\_packages carries \<open>--android\<close> on every
  host and \<open>--windows\<close> exactly on a windows host, where it carries both; a run of the
  step that completes has started the license, package, config and precache calls, the
  precache call last.
\<close>

theorem precache_flags:
  "''--android'' \<in> set (precache_args H) \<and>
   (''--windows'' \<in> set (precache_args H)) = is_windows H \<and>
   argv (precache_cmd H android_sdk flutter_root) =
     [path_str H (flutter_bin H flutter_root), ''precache''] @ precache_args H \<and>
   (is_windows H \<longrightarrow> precache_args H = [''--android'', ''--windows'']) \<and>
   (fst (install_android_packages H android_sdk env_map flutter_root s) = Inr () \<longrightarrow>
      trace (snd (install_android_packages H android_sdk env_map flutter_root s)) =
        trace s @ [Run (license_cmd H android_sdk), Run (packages_cmd H android_sdk env_map),
                   Run (config_cmd H android_sdk flutter_root),
                   Run (precache_cmd H android_sdk flutter_root)])"
proof -
  have "trace (snd (install_android_packages H android_sdk env_map flutter_root s)) =
        trace s @ [Run (license_cmd H android_sdk), Run (packages_cmd H android_sdk env_map),
                   Run (config_cmd H android_sdk flutter_root),
                   Run (precache_cmd H android_sdk flutter_root)]"
    if ok: "fst (install_android_packages H android_sdk env_map flutter_root s) = Inr ()"
  proof (cases "path_exists s (sdkmanager_bin H android_sdk)")
    case True
    from packages_trace [OF True, of env_map flutter_root] ok show ?thesis by auto
  next
    case False
    with ok show ?thesis by (simp add: install_android_packages_def)
  qed
  then show ?thesis by (simp add: precache_args_def precache_cmd_def)
qed


theorem precache_flags_witness:
  "drop 1 (argv (precache_cmd (demo_host True (\<lambda>a. 0)) demo_sdk demo_flutter)) =
     [''precache'', ''--android'', ''--windows''] \<and>
   last (trace (snd (install_android_packages (demo_host True (\<lambda>a. 0)) demo_sdk Map.empty demo_flutter
     (demo_state [sdkmanager_bin (demo_host True (\<lambda>a. 0)) demo_sdk \<mapsto> F ''bat''] (\<lambda>n. True))))) =
     Run (precache_cmd (demo_host True (\<lambda>a. 0)) demo_sdk demo_flutter)"
proof -
  let ?H = "demo_host True (\<lambda>a. 0)"
  let ?s = "demo_state [sdkmanager_bin ?H demo_sdk \<mapsto> F ''bat''] (\<lambda>n. True)"
  let ?r = "install_android_packages ?H demo_sdk Map.empty demo_flutter ?s"
  have run: "fst (run_checked ?H c s') = Inr ()" for c s'
    by (simp add: run_checked_def demo_host_def)
  have ex: "path_exists ?s (sdkmanager_bin ?H demo_sdk)"
    by (simp add: path_exists_def demo_state_def)
  have ok: "fst ?r = Inr ()"
    using ex by (simp add: install_android_packages_def and_then_Inr [of _ "()"] run)
  have win: "is_windows ?H" by (simp add: demo_host_def)
  note pf = precache_flags [where H = ?H and android_sdk = demo_sdk and env_map = Map.empty
        and flutter_root = demo_flutter and s = ?s]
  from pf win have a: "precache_args ?H = [''--android'', ''--windows'']" by blast
  from pf have b: "argv (precache_cmd ?H demo_sdk demo_flutter) =
     [path_str ?H (flutter_bin ?H demo_flutter), ''precache''] @ precache_args ?H" by blast
  from pf ok have c: "trace (snd ?r) =
        trace ?s @ [Run (license_cmd ?H demo_sdk), Run (packages_cmd ?H demo_sdk Map.empty),
                   Run (config_cmd ?H demo_sdk demo_flutter),
                   Run (precache_cmd ?H demo_sdk demo_flutter)]" by blast
  from a b have "drop 1 (argv (precache_cmd ?H demo_sdk demo_flutter)) =
     [''precache'', ''--android'', ''--windows'']" by simp
  moreover from c have "last (trace (snd ?r)) = Run (precache_cmd ?H demo_sdk demo_flutter)"
    by simp
  ultimately show ?thesis by (rule conjI)
qed

lemma flutter_ref_trace:
  assumes "\<not> path_exists s (flutter_bin H flutter_root)"
    and "strip (env_get env_map ''FLUTTER_REF'' []) = ref" and "ref \<noteq> []"
  shows "\<exists>n. trace (snd (install_flutter H flutter_root env_map s)) =
           trace s @ take n [Run (clone_default_cmd H flutter_root),
                             Run (fetch_ref_cmd flutter_root ref),
                             Run (checkout_cmd flutter_root ref)] \<and>
         (fst (install_flutter H flutter_root env_map s) = Inr () \<longrightarrow> n = 3) \<and>
         ((\<exists>f1. mkdir_p (butlast flutter_root) (fsys (world s)) = Inr f1) \<longrightarrow> 1 \<le> n)"
proof (cases "mkdir_p (butlast flutter_root) (fsys (world s))")
  case (Inl e)
  with assms have "install_flutter H flutter_root env_map s =
      (Inl e, log (''Installing Flutter into '' @ path_str H flutter_root @ '' ...'') s)"
    by (simp add: install_flutter_def)
  with Inl show ?thesis by (intro exI [of _ 0]) simp
next
  case (Inr f1)
  let ?s1 = "set_fsys f1 (log (''Installing Flutter into '' @ path_str H flutter_root @ '' ...'') s)"
  let ?cl = "run_checked H (clone_default_cmd H flutter_root) ?s1"
  let ?fe = "run_checked H (fetch_ref_cmd flutter_root ref) (snd ?cl)"
  let ?co = "run_checked H (checkout_cmd flutter_root ref) (snd ?fe)"
  let ?r = "install_flutter H flutter_root env_map s"
  from assms Inr have r0: "?r = and_then ?cl
      (\<lambda>_ s2. and_then (run_checked H (fetch_ref_cmd flutter_root ref) s2)
         (\<lambda>_ s3. run_checked H (checkout_cmd flutter_root ref) s3))"
    by (simp add: install_flutter_def)
  show ?thesis
  proof (cases "fst ?cl")
    case (Inl e)
    with r0 have "?r = (Inl e, snd ?cl)" by (simp add: and_then_Inl)
    then show ?thesis by (intro exI [of _ 1]) simp
  next
    case cl: (Inr u)
    with r0 have r1: "?r = and_then ?fe (\<lambda>_ s3. run_checked H (checkout_cmd flutter_root ref) s3)"
      by (simp add: and_then_Inr)
    show ?thesis
    proof (cases "fst ?fe")
      case (Inl e)
      with r1 have "?r = (Inl e, snd ?fe)" by (simp add: and_then_Inl)
      then show ?thesis by (intro exI [of _ 2]) simp
    next
      case (Inr u')
      with r1 have "?r = ?co" by (simp add: and_then_Inr)
      then show ?thesis by (intro exI [of _ 3]) simp
    qed
  qed
qed

lemma flutter_channel_trace:
  assumes "\<not> path_exists s (flutter_bin H flutter_root)"
    and "strip (env_get env_map ''FLUTTER_REF'' []) = []"
  shows "\<exists>n. trace (snd (install_flutter H flutter_root env_map s)) =
           trace s @ take n [Run (clone_channel_cmd H flutter_root
                                    (env_get env_map ''FLUTTER_CHANNEL'' ''stable''))] \<and>
         (fst (install_flutter H flutter_root env_map s) = Inr () \<longrightarrow> n = 1) \<and>
         ((\<exists>f1. mkdir_p (butlast flutter_root) (fsys (world s)) = Inr f1) \<longrightarrow> 1 \<le> n)"
proof (cases "mkdir_p (butlast flutter_root) (fsys (world s))")
  case (Inl e)
  with assms have "install_flutter H flutter_root env_map s =
      (Inl e, log (''Installing Flutter into '' @ path_str H flutter_root @ '' ...'') s)"
    by (simp add: install_flutter_def)
  with Inl show ?thesis by (intro exI [of _ 0]) simp
next
  case (Inr f1)
  with assms have "install_flutter H flutter_root env_map s =
      run_checked H (clone_channel_cmd H flutter_root (env_get env_map ''FLUTTER_CHANNEL'' ''stable''))
        (set_fsys f1 (log (''Installing Flutter into '' @ path_str H flutter_root @ '' ...'') s))"
    by (simp add: install_flutter_def)
  then show ?thesis by (intro exI [of _ 1]) simp
qed

lemma flutter_ref_ignores_channel:
  assumes "strip (env_get env_map ''FLUTTER_REF'' []) \<noteq> []"
  shows "install_flutter H flutter_root (env_map(''FLUTTER_CHANNEL'' \<mapsto> ch)) s =
         install_flutter H flutter_root env_map s"
proof -
  have "env_get (env_map(''FLUTTER_CHANNEL'' \<mapsto> ch)) ''FLUTTER_REF'' [] =
        env_get env_map ''FLUTTER_REF'' []"
    by (simp add: env_get_def)
  with assms show ?thesis by (simp add: install_flutter_def Let_def split: sum.splits)
qed

text \<open>
  C6. install\_flutter with the marker absent. With a configured ref that is not empty
  after trimming, the subprocesses it starts are, in this order and until one fails,
  \<open>git clone --depth 1 <repository> <root>\<close> (no branch: the default one),
  \<open>git fetch origin <ref> --depth 1\<close> and \<open>git checkout <ref>\<close>, the last two inside the
  root; a run that completes has started all three, and the configured channel changes
  nothing. With an empty ref the only subprocess is
  \<open>git clone --depth 1 -b <channel> <repository> <root>\<close>. The clone is started whenever
  the parent directory of the root can be made.
\<close>

theorem flutter_clone_plan:
  assumes "\<not> path_exists s (flutter_bin H flutter_root)"
    and "ref = strip (env_get env_map ''FLUTTER_REF'' [])"
    and "channel = env_get env_map ''FLUTTER_CHANNEL'' ''stable''"
  shows
    "(ref \<noteq> [] \<longrightarrow>
       (\<exists>n. trace (snd (install_flutter H flutter_root env_map s)) =
          trace s @ take n
            [Run (plain_cmd [''git'', ''clone'', ''--depth'', ''1'', flutter_repo,
                             path_str H flutter_root] None),
             Run (plain_cmd [''git'', ''fetch'', ''origin'', ref, ''--depth'', ''1'']
                            (Some flutter_root)),
             Run (plain_cmd [''git'', ''checkout'', ref] (Some flutter_root))] \<and>
          (fst (install_flutter H flutter_root env_map s) = Inr () \<longrightarrow> n = 3) \<and>
          ((\<exists>f1. mkdir_p (butlast flutter_root) (fsys (world s)) = Inr f1) \<longrightarrow> 1 \<le> n)) \<and>
       (\<forall>ch. install_flutter H flutter_root (env_map(''FLUTTER_CHANNEL'' \<mapsto> ch)) s =
             install_flutter H flutter_root env_map s)) \<and>
     (ref = [] \<longrightarrow>
       (\<exists>n. trace (snd (install_flutter H flutter_root env_map s)) =
          trace s @ take n
            [Run (plain_cmd [''git'', ''clone'', ''--depth'', ''1'', ''-b'', channel, flutter_repo,
                             path_str H flutter_root] None)] \<and>
          (fst (install_flutter H flutter_root env_map s) = Inr () \<longrightarrow> n = 1) \<and>
          ((\<exists>f1. mkdir_p (butlast flutter_root) (fsys (world s)) = Inr f1) \<longrightarrow> 1 \<le> n)))"
proof (intro conjI impI)
  assume r: "ref \<noteq> []"
  from flutter_ref_trace [OF assms(1) assms(2) [symmetric] r]
  show "\<exists>n. trace (snd (install_flutter H flutter_root env_map s)) =
          trace s @ take n
            [Run (plain_cmd [''git'', ''clone'', ''--depth'', ''1'', flutter_repo,
                             path_str H flutter_root] None),
             Run (plain_cmd [''git'', ''fetch'', ''origin'', ref, ''--depth'', ''1'']
                            (Some flutter_root)),
             Run (plain_cmd [''git'', ''checkout'', ref] (Some flutter_root))] \<and>
          (fst (install_flutter H flutter_root env_map s) = Inr () \<longrightarrow> n = 3) \<and>
          ((\<exists>f1. mkdir_p (butlast flutter_root) (fsys (world s)) = Inr f1) \<longrightarrow> 1 \<le> n)"
    by (simp add: clone_default_cmd_def fetch_ref_cmd_def checkout_cmd_def)
  from r assms(2) show "\<forall>ch. install_flutter H flutter_root (env_map(''FLUTTER_CHANNEL'' \<mapsto> ch)) s =
             install_flutter H flutter_root env_map s"
    by (simp add: flutter_ref_ignores_channel)
next
  assume r: "ref = []"
  with assms(2) have "strip (env_get env_map ''FLUTTER_REF'' []) = []" by simp
  from flutter_channel_trace [OF assms(1) this] assms(3)
  show "\<exists>n. trace (snd (install_flutter H flutter_root env_map s)) =
          trace s @ take n
            [Run (plain_cmd [''git'', ''clone'', ''--depth'', ''1'', ''-b'', channel, flutter_repo,
                             path_str H flutter_root] None)] \<and>
          (fst (install_flutter H flutter_root env_map s) = Inr () \<longrightarrow> n = 1) \<and>
          ((\<exists>f1. mkdir_p (butlast flutter_root) (fsys (world s)) = Inr f1) \<longrightarrow> 1 \<le> n)"
    by (simp add: clone_channel_cmd_def)
qed

theorem flutter_clone_plan_witness:
  "trace (snd (install_flutter (demo_host False (\<lambda>a. 0)) demo_flutter
       [''FLUTTER_CHANNEL'' \<mapsto> ''beta'', ''FLUTTER_REF'' \<mapsto> ''3.19.0'']
       (demo_state Map.empty (\<lambda>n. True)))) =
     [Run (plain_cmd [''git'', ''clone'', ''--depth'', ''1'', ''https://github.com/flutter/flutter'',
                      ''/repo/.tooling/flutter''] None),
      Run (plain_cmd [''git'', ''fetch'', ''origin'', ''3.19.0'', ''--depth'', ''1''] (Some demo_flutter)),
      Run (plain_cmd [''git'', ''checkout'', ''3.19.0''] (Some demo_flutter))] \<and>
   trace (snd (install_flutter (demo_host False (\<lambda>a. 0)) demo_flutter
       [''FLUTTER_CHANNEL'' \<mapsto> ''beta'']
       (demo_state Map.empty (\<lambda>n. True)))) =
     [Run (plain_cmd [''git'', ''clone'', ''--depth'', ''1'', ''-b'', ''beta'',
                      ''https://github.com/flutter/flutter'', ''/repo/.tooling/flutter''] None)]"
proof -
  let ?H = "demo_host False (\<lambda>a. 0)"
  let ?s = "demo_state Map.empty (\<lambda>n. True)"
  let ?m = "[''FLUTTER_CHANNEL'' \<mapsto> ''beta'', ''FLUTTER_REF'' \<mapsto> ''3.19.0'']"
  let ?m' = "[''FLUTTER_CHANNEL'' \<mapsto> ''beta'']"
  have run: "fst (run_checked ?H c s') = Inr ()" for c s'
    by (simp add: run_checked_def demo_host_def)
  have ne: "\<not> path_exists ?s (flutter_bin ?H demo_flutter)"
    by (simp add: path_exists_def demo_state_def)
  have rf: "''3.19.0'' = strip (env_get ?m ''FLUTTER_REF'' [])"
    and rf': "[] = strip (env_get ?m' ''FLUTTER_REF'' [])"
    and ch: "''beta'' = env_get ?m' ''FLUTTER_CHANNEL'' ''stable''"
    by (simp_all add: env_get_def strip_def is_space_def)
  have mk: "mkdir_p (butlast demo_flutter) (fsys (world ?s)) =
              Inr [[''repo''] \<mapsto> D, [''repo'', ''.tooling''] \<mapsto> D]"
    by (simp add: mkdir_p_def demo_flutter_def demo_state_def)
  have ok: "fst (install_flutter ?H demo_flutter ?m s) = Inr ()"
    if "s = ?s" for s
    using that ne mk rf [symmetric]
    by (simp add: install_flutter_def Let_def and_then_Inr [of _ "()"] run)
  have ok': "fst (install_flutter ?H demo_flutter ?m' s) = Inr ()"
    if "s = ?s" for s
    using that ne mk rf' [symmetric]
    by (simp add: install_flutter_def Let_def run)
  have tr: "trace ?s = []" by (simp add: demo_state_def)
  have ps: "path_str ?H demo_flutter = ''/repo/.tooling/flutter''"
    by (simp add: path_str_def demo_host_def demo_flutter_def)
  from flutter_clone_plan [OF ne rf refl] ok [OF refl] tr ps
  have a: "trace (snd (install_flutter ?H demo_flutter ?m ?s)) =
     [Run (plain_cmd [''git'', ''clone'', ''--depth'', ''1'', ''https://github.com/flutter/flutter'',
                      ''/repo/.tooling/flutter''] None),
      Run (plain_cmd [''git'', ''fetch'', ''origin'', ''3.19.0'', ''--depth'', ''1''] (Some demo_flutter)),
      Run (plain_cmd [''git'', ''checkout'', ''3.19.0''] (Some demo_flutter))]"
    by (auto simp: flutter_repo_def)
  from flutter_clone_plan [OF ne rf' ch] ok' [OF refl] tr ps
  have b: "trace (snd (install_flutter ?H demo_flutter ?m' ?s)) =
     [Run (plain_cmd [''git'', ''clone'', ''--depth'', ''1'', ''-b'', ''beta'',
                      ''https://github.com/flutter/flutter'', ''/repo/.tooling/flutter''] None)]"
    by (auto simp: flutter_repo_def)
  from a b show ?thesis by (rule conjI)
qed

lemma ensure_prereqs_failure:
  assumes "fst (ensure_prereqs H s) = Inl e"
  shows "e = SystemExit git_missing \<or> e = SystemExit java_missing"
proof (cases "have_cmd s ''git''")
  case False
  with assms show ?thesis by (simp add: ensure_prereqs_def)
next
  case git: True
  show ?thesis
  proof (cases "have_cmd s ''java''")
    case True
    with git assms show ?thesis by (simp add: ensure_prereqs_def)
  next
    case java: False
    let ?attempt = "if is_windows H \<and> have_cmd s ''winget'' then
             (case run_checked H winget_jdk_cmd
                     (log ''Java 17 not found. Installing Microsoft OpenJDK 17 via winget...'' s) of
                (Inl e, s1) \<Rightarrow> if is_exception e then (Inr (), s1) else (Inl e, s1)
              | (Inr u, s1) \<Rightarrow> (Inr (), s1))
           else (Inr (), s)"
    have "fst ?attempt = Inr ()"
      using run_checked_exception [of H winget_jdk_cmd
          "log ''Java 17 not found. Installing Microsoft OpenJDK 17 via winget...'' s"]
      by (auto split: prod.splits sum.splits)
    then have "ensure_prereqs H s =
        (if \<not> have_cmd (snd ?attempt) ''java'' then (Inl (SystemExit java_missing), snd ?attempt)
         else (Inr (), snd ?attempt))"
      using git java by (simp add: ensure_prereqs_def and_then_Inr [of ?attempt "()"])
    with assms show ?thesis by (simp split: if_splits)
  qed
qed

text \<open>
  C7. ensure\_prereqs on a windows host with git and winget but no java, where the winget
  installation of the JDK fails: the failure is swallowed, java is still absent, and the
  step exits with the message below. The message names the Linux command only; the text
  for a missing git names a command for each family. The claim asks for both in the
  java message, so this instance records where the code departs from it.
\<close>

theorem java_missing_names_linux_only:
  "fst (ensure_prereqs (demo_host True (\<lambda>a. 1))
          (demo_state Map.empty (\<lambda>n. n = ''git'' \<or> n = ''winget''))) =
     Inl (SystemExit ''Java 17 not found on PATH. Install JDK 17 and re-run.\<newline>Linux: sudo apt install openjdk-17-jdk'') \<and>
   trace (snd (ensure_prereqs (demo_host True (\<lambda>a. 1))
          (demo_state Map.empty (\<lambda>n. n = ''git'' \<or> n = ''winget'')))) = [Run winget_jdk_cmd] \<and>
   contains java_missing ''apt install'' \<and>
   \<not> contains java_missing ''winget'' \<and> \<not> contains java_missing ''Windows'' \<and>
   contains git_missing ''Windows: winget install'' \<and> contains git_missing ''Linux: sudo apt install''"
proof -
  let ?H = "demo_host True (\<lambda>a. 1)"
  let ?s = "demo_state Map.empty (\<lambda>n. n = ''git'' \<or> n = ''winget'')"
  have r: "ensure_prereqs ?H ?s =
      (Inl (SystemExit java_missing),
       snd (run_checked ?H winget_jdk_cmd
              (log ''Java 17 not found. Installing Microsoft OpenJDK 17 via winget...'' ?s)))"
    by (simp add: ensure_prereqs_def have_cmd_def demo_state_def demo_host_def and_then_def
          run_checked_def Let_def err_def log_def)
  have a: "fst (ensure_prereqs ?H ?s) =
     Inl (SystemExit ''Java 17 not found on PATH. Install JDK 17 and re-run.\<newline>Linux: sudo apt install openjdk-17-jdk'')"
    by (simp add: r java_missing_def)
  have b: "trace (snd (ensure_prereqs ?H ?s)) = [Run winget_jdk_cmd]"
    by (simp add: r) (simp add: demo_state_def)
  have c: "contains java_missing ''apt install''"
    "\<not> contains java_missing ''winget''" "\<not> contains java_missing ''Windows''"
    "contains git_missing ''Windows: winget install''"
    "contains git_missing ''Linux: sudo apt install''"
    by (simp_all add: java_missing_def git_missing_def startswith_def)
  from a b c show ?thesis by simp
qed

section \<open>Merging the extracted archive\<close>

lemma tree_at_Nil_items [simp]: "p \<noteq> [] \<Longrightarrow> tree_at (TDir []) p = None"
  by (cases p) simp_all

lemma tree_at_file [simp]: "p \<noteq> [] \<Longrightarrow> tree_at (TFile c) p = None"
  by (cases p) simp_all

lemma tree_at_fresh:
  assumes "name \<notin> fst ` set rest"
  shows "tree_at (TDir rest) (name # p) = None"
proof -
  from assms have "map_of rest name = None" by (simp add: map_of_eq_None_iff)
  then show ?thesis by simp
qed

lemma tree_at_head:
  assumes "tree_at (TDir items) (c # p) \<noteq> None"
  shows "c \<in> fst ` set items"
proof (rule ccontr)
  assume "c \<notin> fst ` set items"
  then have "tree_at (TDir items) (c # p) = None" by (rule tree_at_fresh)
  with assms show False by simp
qed

lemma no_clash_cong:
  "(\<And>c p. c \<in> fst ` set items \<Longrightarrow> g (dst @ c # p) = f (dst @ c # p)) \<Longrightarrow>
     no_clash items dst g = no_clash items dst f"
proof (induction items dst f rule: no_clash.induct)
  case (1 dst f)
  show ?case by simp
next
  case (2 name c rest dst f)
  have "g (dst @ [name]) = f (dst @ [name])" using "2.prems" [of name "[]"] by simp
  moreover have "no_clash rest dst g = no_clash rest dst f"
    by (rule "2.IH") (simp add: "2.prems")
  ultimately show ?case by simp
next
  case (3 name sub rest dst f)
  have a: "g (dst @ [name]) = f (dst @ [name])" using "3.prems" [of name "[]"] by simp
  have b: "no_clash sub (dst @ [name]) g = no_clash sub (dst @ [name]) f"
  proof (rule "3.IH"(1))
    fix c p
    show "g ((dst @ [name]) @ c # p) = f ((dst @ [name]) @ c # p)"
      using "3.prems" [of name "c # p"] by simp
  qed
  have c: "no_clash rest dst g = no_clash rest dst f"
    by (rule "3.IH"(2)) (simp add: "3.prems")
  from a b c show ?case by simp
qed

lemma merged_Nil: "merged [] dst f f"
  by (simp add: merged_def)

lemma merged_file_step:
  assumes fresh: "name \<notin> fst ` set rest"
    and m: "merged rest dst (f(dst @ [name] \<mapsto> F c)) f'"
  shows "merged ((name, TFile c) # rest) dst f f'"
proof -
  let ?f1 = "f(dst @ [name] \<mapsto> F c)"
  from m have A1: "\<And>p. p \<noteq> [] \<Longrightarrow> f' (dst @ p) =
           laid (tree_at (TDir rest) p) (?f1 (dst @ p))"
    and B1: "\<And>q. (\<forall>p. p \<noteq> [] \<longrightarrow> q \<noteq> dst @ p) \<Longrightarrow> f' q = ?f1 q"
    by (simp_all add: merged_def)
  have A: "f' (dst @ p) =
           laid (tree_at (TDir ((name, TFile c) # rest)) p) (f (dst @ p))" if "p \<noteq> []" for p
  proof -
    from that obtain c' p' where p: "p = c' # p'" by (cases p) auto
    show ?thesis
    proof (cases "c' = name")
      case True
      have n: "tree_at (TDir rest) p = None"
        unfolding p True by (rule tree_at_fresh [OF fresh])
      with A1 [OF that] have e: "f' (dst @ p) = ?f1 (dst @ p)" by simp
      show ?thesis
      proof (cases "p' = []")
        case True
        with e p \<open>c' = name\<close> show ?thesis by simp
      next
        case False
        with e p \<open>c' = name\<close> show ?thesis by simp
      qed
    next
      case False
      then have "tree_at (TDir ((name, TFile c) # rest)) p = tree_at (TDir rest) p"
        by (simp add: p)
      moreover from False have "?f1 (dst @ p) = f (dst @ p)" by (simp add: p)
      ultimately show ?thesis using A1 [OF that] by simp
    qed
  qed
  have B: "f' q = f q" if "\<forall>p. p \<noteq> [] \<longrightarrow> q \<noteq> dst @ p" for q
  proof -
    from that have "q \<noteq> dst @ [name]" by blast
    with B1 [OF that] show ?thesis by simp
  qed
  from A B show ?thesis by (simp add: merged_def)
qed

lemma merged_dir_step:
  assumes fresh: "name \<notin> fst ` set rest"
    and m1: "merged sub (dst @ [name]) (f(dst @ [name] \<mapsto> D)) g"
    and m2: "merged rest dst g f'"
  shows "merged ((name, TDir sub) # rest) dst f f'"
proof -
  let ?f0 = "f(dst @ [name] \<mapsto> D)"
  from m1 have A1: "\<And>p. p \<noteq> [] \<Longrightarrow> g (dst @ name # p) =
           laid (tree_at (TDir sub) p) (?f0 (dst @ name # p))"
    and B1: "\<And>q. (\<forall>p. p \<noteq> [] \<longrightarrow> q \<noteq> dst @ name # p) \<Longrightarrow> g q = ?f0 q"
    by (simp_all add: merged_def)
  from m2 have A2: "\<And>p. p \<noteq> [] \<Longrightarrow> f' (dst @ p) =
           laid (tree_at (TDir rest) p) (g (dst @ p))"
    and B2: "\<And>q. (\<forall>p. p \<noteq> [] \<longrightarrow> q \<noteq> dst @ p) \<Longrightarrow> f' q = g q"
    by (simp_all add: merged_def)
  have A: "f' (dst @ p) =
           laid (tree_at (TDir ((name, TDir sub) # rest)) p) (f (dst @ p))" if "p \<noteq> []" for p
  proof -
    from that obtain c' p' where p: "p = c' # p'" by (cases p) auto
    show ?thesis
    proof (cases "c' = name")
      case True
      have n: "tree_at (TDir rest) p = None"
        unfolding p True by (rule tree_at_fresh [OF fresh])
      with A2 [OF that] have e: "f' (dst @ p) = g (dst @ name # p')" by (simp add: p True)
      show ?thesis
      proof (cases "p' = []")
        case True
        have "g (dst @ [name]) = ?f0 (dst @ [name])" by (rule B1) simp
        with e True p \<open>c' = name\<close> show ?thesis by simp
      next
        case False
        have "?f0 (dst @ name # p') = f (dst @ name # p')" using False by simp
        with A1 [OF False] e p \<open>c' = name\<close> show ?thesis by simp
      qed
    next
      case False
      then have t: "tree_at (TDir ((name, TDir sub) # rest)) p = tree_at (TDir rest) p"
        by (simp add: p)
      from False have "g (dst @ p) = ?f0 (dst @ p)" by (intro B1) (simp add: p)
      moreover from False have "?f0 (dst @ p) = f (dst @ p)" by (simp add: p)
      ultimately show ?thesis using A2 [OF that] t by simp
    qed
  qed
  have B: "f' q = f q" if "\<forall>p. p \<noteq> [] \<longrightarrow> q \<noteq> dst @ p" for q
  proof -
    from that have a: "q \<noteq> dst @ [name]" and b: "\<forall>p. p \<noteq> [] \<longrightarrow> q \<noteq> dst @ name # p"
      by blast+
    from B2 [OF that] B1 [OF b] a show ?thesis by simp
  qed
  from A B show ?thesis by (simp add: merged_def)
qed

lemma copy_items_merged:
  "wf_items items \<Longrightarrow> no_clash items dst f \<Longrightarrow>
     snd (copy_items items dst f) = False \<and> merged items dst f (fst (copy_items items dst f))"
proof (induction items dst f rule: copy_items.induct)
  case (1 dst f)
  show ?case by (simp add: merged_Nil)
next
  case (2 name c rest dst f)
  let ?f1 = "f(dst @ [name] \<mapsto> F c)"
  from "2.prems" have fresh: "name \<notin> fst ` set rest" and wf: "wf_items rest"
    and nd: "f (dst @ [name]) \<noteq> Some D" and nc: "no_clash rest dst f"
    by simp_all
  from nd have c2: "copy2 c dst name f = Inr ?f1"
    by (auto simp: copy2_def split: option.splits entry.splits)
  have "no_clash rest dst ?f1 = no_clash rest dst f"
  proof (rule no_clash_cong)
    fix c' p assume "c' \<in> fst ` set rest"
    with fresh have "c' \<noteq> name" by auto
    then show "?f1 (dst @ c' # p) = f (dst @ c' # p)" by simp
  qed
  with nc have nc1: "no_clash rest dst ?f1" by simp
  have ih: "snd (copy_items rest dst ?f1) = False \<and>
      merged rest dst ?f1 (fst (copy_items rest dst ?f1))"
    by (rule "2.IH"(2) [OF c2 wf nc1])
  have eq: "copy_items ((name, TFile c) # rest) dst f = copy_items rest dst ?f1"
    by (simp add: c2)
  from ih have "merged ((name, TFile c) # rest) dst f (fst (copy_items rest dst ?f1))"
    by (intro merged_file_step [OF fresh]) (rule conjunct2)
  with ih show ?case unfolding eq by (intro conjI) (rule conjunct1)
next
  case (3 name sub rest dst f)
  let ?f0 = "f(dst @ [name] \<mapsto> D)"
  let ?r1 = "copy_items sub (dst @ [name]) ?f0"
  let ?r2 = "copy_items rest dst (fst ?r1)"
  from "3.prems" have fresh: "name \<notin> fst ` set rest" and wfs: "wf_items sub"
    and wfr: "wf_items rest"
    and nf: "\<forall>c. f (dst @ [name]) \<noteq> Some (F c)"
    and ncs: "no_clash sub (dst @ [name]) f" and ncr: "no_clash rest dst f"
    by (auto split: option.splits entry.splits)
  have eq: "copy_items ((name, TDir sub) # rest) dst f = (fst ?r2, snd ?r1 \<or> snd ?r2)"
    using nf by (auto simp: Let_def split: option.splits entry.splits)
  have "no_clash sub (dst @ [name]) ?f0 = no_clash sub (dst @ [name]) f"
  proof (rule no_clash_cong)
    fix c' p
    show "?f0 ((dst @ [name]) @ c' # p) = f ((dst @ [name]) @ c' # p)" by simp
  qed
  with ncs have ncs0: "no_clash sub (dst @ [name]) ?f0" by simp
  have ih1: "snd ?r1 = False \<and> merged sub (dst @ [name]) ?f0 (fst ?r1)"
  proof (cases "f (dst @ [name])")
    case None
    from "3.IH"(1) [OF None wfs ncs0] show ?thesis .
  next
    case (Some e)
    with nf have e: "e = D" by (cases e) auto
    from "3.IH"(4) [OF Some e wfs ncs0] show ?thesis .
  qed
  then have m1: "merged sub (dst @ [name]) ?f0 (fst ?r1)" and s1: "snd ?r1 = False" by simp_all
  have "no_clash rest dst (fst ?r1) = no_clash rest dst f"
  proof (rule no_clash_cong)
    fix c' p assume "c' \<in> fst ` set rest"
    with fresh have ne: "c' \<noteq> name" by auto
    from m1 have "\<And>q. (\<forall>p. p \<noteq> [] \<longrightarrow> q \<noteq> (dst @ [name]) @ p) \<Longrightarrow> fst ?r1 q = ?f0 q"
      by (simp add: merged_def)
    from this [of "dst @ c' # p"] ne have "fst ?r1 (dst @ c' # p) = ?f0 (dst @ c' # p)" by simp
    with ne show "fst ?r1 (dst @ c' # p) = f (dst @ c' # p)" by simp
  qed
  with ncr have ncr1: "no_clash rest dst (fst ?r1)" by simp
  have ih2: "snd ?r2 = False \<and> merged rest dst (fst ?r1) (fst ?r2)"
  proof (cases "f (dst @ [name])")
    case None
    from "3.IH"(2) [OF None refl wfr ncr1] show ?thesis .
  next
    case (Some e)
    with nf have e: "e = D" by (cases e) auto
    from "3.IH"(5) [OF Some e refl wfr ncr1] show ?thesis .
  qed
  from ih2 have "merged ((name, TDir sub) # rest) dst f (fst ?r2)"
    by (intro merged_dir_step [OF fresh m1]) (rule conjunct2)
  moreover from s1 ih2 have "(snd ?r1 \<or> snd ?r2) = False" by simp
  ultimately show ?case unfolding eq by simp
qed

lemma place_items_copy:
  "snd (copy_items items dst f) = False \<Longrightarrow>
     place_items items dst f = (None, fst (copy_items items dst f))"
proof (induction items dst f rule: copy_items.induct)
  case (1 dst f)
  show ?case by simp
next
  case (2 name c rest dst f)
  show ?case
  proof (cases "copy2 c dst name f")
    case (Inl e)
    with "2.prems" show ?thesis by simp
  next
    case (Inr f1)
    with "2.prems" have "snd (copy_items rest dst f1) = False" by simp
    from "2.IH"(2) [OF Inr this] Inr show ?thesis by simp
  qed
next
  case (3 name sub rest dst f)
  let ?f0 = "f(dst @ [name] \<mapsto> D)"
  let ?r1 = "copy_items sub (dst @ [name]) ?f0"
  let ?r2 = "copy_items rest dst (fst ?r1)"
  from "3.prems" have nf: "\<forall>c. f (dst @ [name]) \<noteq> Some (F c)"
    by (auto split: option.splits entry.splits)
  then have eq: "copy_items ((name, TDir sub) # rest) dst f = (fst ?r2, snd ?r1 \<or> snd ?r2)"
    by (auto simp: Let_def split: option.splits entry.splits)
  with "3.prems" have s1: "snd ?r1 = False" and s2: "snd ?r2 = False" by simp_all
  from nf s1 have ct: "copytree sub (dst @ [name]) f = (None, fst ?r1)"
    by (auto simp: copytree_def Let_def split: option.splits entry.splits)
  have pl: "place_items rest dst (fst ?r1) = (None, fst ?r2)"
  proof (cases "f (dst @ [name])")
    case None
    from "3.IH"(2) [OF None refl s2] show ?thesis .
  next
    case (Some e)
    with nf have e: "e = D" by (cases e) auto
    from "3.IH"(5) [OF Some e refl s2] show ?thesis .
  qed
  from ct pl have "place_items ((name, TDir sub) # rest) dst f = (None, fst ?r2)" by simp
  then show ?case unfolding eq by simp
qed

lemma place_items_merged:
  assumes "wf_items items" and "no_clash items dst f"
  shows "\<exists>f'. place_items items dst f = (None, f') \<and> merged items dst f f'"
  using copy_items_merged [OF assms] place_items_copy [of items dst f] by simp

lemma mkdir_from_frame:
  "mkdir_from pre p f = Inr f' \<Longrightarrow> \<not> prefix q (pre @ p) \<Longrightarrow> f' q = f q"
proof (induction pre p f rule: mkdir_from.induct)
  case (1 pre f)
  then show ?case by simp
next
  case (2 pre c p f)
  let ?f0 = "f(pre @ [c] \<mapsto> D)"
  from "2.prems"(1) have nf: "\<forall>x. f (pre @ [c]) \<noteq> Some (F x)"
    and rec: "mkdir_from (pre @ [c]) p ?f0 = Inr f'"
    by (auto split: option.splits entry.splits)
  from "2.prems"(2) have np: "\<not> prefix q ((pre @ [c]) @ p)" by simp
  have "prefix (pre @ [c]) (pre @ c # p)" by (simp add: prefix_def)
  with "2.prems"(2) have ne: "q \<noteq> pre @ [c]" by auto
  have "f' q = ?f0 q"
  proof (cases "f (pre @ [c])")
    case None
    from "2.IH"(1) [OF None rec np] show ?thesis .
  next
    case (Some e)
    with nf have e: "e = D" by (cases e) auto
    from "2.IH"(2) [OF Some e rec np] show ?thesis .
  qed
  with ne show ?case by simp
qed

lemma mkdir_p_frame:
  "mkdir_p p f = Inr f' \<Longrightarrow> \<not> prefix q p \<Longrightarrow> f' q = f q"
  using mkdir_from_frame [of "[]" p f f' q] by (simp add: mkdir_p_def)

text \<open>
  C5, as the code has it. install\_android\_cmdline with the marker absent, where the SDK root and
  cmdline-tools/latest can be made, the download and the extraction succeed, the archive
  holds a directory \<open>cmdline-tools\<close> whose listing \<open>items\<close> has no name twice, and no file
  of the archive meets a directory of the destination (nor a directory a file). The step
  completes, and below \<open>latest = <sdkRoot>/cmdline-tools/latest\<close> the path \<open>latest/p\<close>
  holds what the archive holds at \<open>cmdline-tools/p\<close>: the file's content where that is a
  file, a directory where that is a directory, and what was there before where the
  archive has nothing at \<open>p\<close>. So the wrapper directory is dropped, directories are merged
  and only files at the same relative path are overwritten. Every path that is neither
  below \<open>latest\<close> nor a prefix of it is untouched. The condition on the destination is
  needed: where a file of the archive meets a directory of the destination,
  \<^verbatim>\<open>shutil.copy2\<close> writes the file inside that directory and the step still completes, as
  the instance after the witness shows for a directory \<open>latest/NOTICE\<close>.
\<close>

theorem cmdline_tools_merge:
  assumes "\<not> path_exists s (sdkmanager_bin H android_sdk)"
    and "latest = android_sdk @ [''cmdline-tools'', ''latest'']"
    and "mkdir_p android_sdk (fsys (world s)) = Inr f1"
    and "mkdir_p latest f1 = Inr f2"
    and "urlretrieve H (cmdline_url H (env_get env_map ''ANDROID_CMDLINE_TOOLS'' ''11076708'')) =
           Inr zbytes"
    and "extractall H zbytes = Inr extracted"
    and "map_of extracted ''cmdline-tools'' = Some (TDir items)"
    and "wf_items items"
    and "no_clash items latest (fsys (world s))"
  shows "fst (install_android_cmdline H android_sdk env_map s) = Inr () \<and>
         (\<forall>p. p \<noteq> [] \<longrightarrow>
            fsys (world (snd (install_android_cmdline H android_sdk env_map s))) (latest @ p) =
              laid (tree_at (TDir items) p) (fsys (world s) (latest @ p))) \<and>
         (\<forall>q. \<not> prefix q latest \<and> (\<forall>p. p \<noteq> [] \<longrightarrow> q \<noteq> latest @ p) \<longrightarrow>
            fsys (world (snd (install_android_cmdline H android_sdk env_map s))) q =
              fsys (world s) q)"
proof -
  let ?f = "fsys (world s)"
  let ?r = "install_android_cmdline H android_sdk env_map s"
  have sdk: "prefix android_sdk latest" by (simp add: assms(2))
  have fr: "f2 q = ?f q" if "\<not> prefix q latest" for q
  proof -
    from that sdk have "\<not> prefix q android_sdk" by (auto dest: prefix_order.trans)
    with assms(3) have "f1 q = ?f q" by (rule mkdir_p_frame)
    moreover from assms(4) that have "f2 q = f1 q" by (rule mkdir_p_frame)
    ultimately show ?thesis by simp
  qed
  have below: "f2 (latest @ p) = ?f (latest @ p)" if "p \<noteq> []" for p
    using that by (intro fr) (simp add: prefix_def)
  have "no_clash items latest f2 = no_clash items latest ?f"
    by (rule no_clash_cong) (simp add: below)
  with assms(9) have nc: "no_clash items latest f2" by simp
  from place_items_merged [OF assms(8) nc]
  obtain f3 where pl: "place_items items latest f2 = (None, f3)"
    and m: "merged items latest f2 f3" by blast
  have res: "?r = (Inr (), set_fsys f3
      (snd (unzip H zbytes (snd (download H
         (cmdline_url H (env_get env_map ''ANDROID_CMDLINE_TOOLS'' ''11076708''))
         (set_fsys f2 (log (''Installing Android cmdline-tools ''
            @ env_get env_map ''ANDROID_CMDLINE_TOOLS'' ''11076708'' @ '' into ''
            @ path_str H android_sdk @ '' ...'') s)))))))"
    using assms(1,3,5,6,7) assms(4) [unfolded assms(2)] pl [unfolded assms(2)]
    by (simp add: install_android_cmdline_def Let_def and_then_def download_def unzip_def)
  from m have A: "\<And>p. p \<noteq> [] \<Longrightarrow> f3 (latest @ p) = laid (tree_at (TDir items) p) (f2 (latest @ p))"
    and B: "\<And>q. (\<forall>p. p \<noteq> [] \<longrightarrow> q \<noteq> latest @ p) \<Longrightarrow> f3 q = f2 q"
    by (simp_all add: merged_def)
  have w: "fsys (world (snd ?r)) = f3" by (simp add: res)
  have a: "fst ?r = Inr ()" by (simp add: res)
  have b: "\<forall>p. p \<noteq> [] \<longrightarrow> fsys (world (snd ?r)) (latest @ p) =
              laid (tree_at (TDir items) p) (?f (latest @ p))"
    unfolding w by (simp add: A below)
  have c: "\<forall>q. \<not> prefix q latest \<and> (\<forall>p. p \<noteq> [] \<longrightarrow> q \<noteq> latest @ p) \<longrightarrow>
            fsys (world (snd ?r)) q = ?f q"
    unfolding w by (simp add: B fr)
  from a b c show ?thesis by (intro conjI)
qed

theorem cmdline_tools_merge_witness:
  "fst (install_android_cmdline (demo_host False (\<lambda>a. 0)) demo_sdk Map.empty
          (demo_state demo_fs (\<lambda>n. True))) = Inr () \<and>
   fsys (world (snd (install_android_cmdline (demo_host False (\<lambda>a. 0)) demo_sdk Map.empty
          (demo_state demo_fs (\<lambda>n. True))))) (demo_latest @ [''README'']) = Some (F ''readme'') \<and>
   fsys (world (snd (install_android_cmdline (demo_host False (\<lambda>a. 0)) demo_sdk Map.empty
          (demo_state demo_fs (\<lambda>n. True))))) (demo_latest @ [''NOTICE'']) = Some (F ''notice'') \<and>
   fsys (world (snd (install_android_cmdline (demo_host False (\<lambda>a. 0)) demo_sdk Map.empty
          (demo_state demo_fs (\<lambda>n. True))))) (demo_latest @ [''bin'', ''sdkmanager'']) =
     Some (F ''launcher'') \<and>
   fsys (world (snd (install_android_cmdline (demo_host False (\<lambda>a. 0)) demo_sdk Map.empty
          (demo_state demo_fs (\<lambda>n. True))))) (demo_latest @ [''lib'']) = Some D \<and>
   fsys (world (snd (install_android_cmdline (demo_host False (\<lambda>a. 0)) demo_sdk Map.empty
          (demo_state demo_fs (\<lambda>n. True))))) (demo_latest @ [''cmdline-tools'']) = None"
proof -
  let ?H = "demo_host False (\<lambda>a. 0)"
  let ?s = "demo_state demo_fs (\<lambda>n. True)"
  let ?items = "[(''bin'', TDir [(''sdkmanager'', TFile ''launcher'')]),
                 (''lib'', TDir [(''sdklib.jar'', TFile ''classes'')]),
                 (''NOTICE'', TFile ''notice'')]"
  let ?r = "install_android_cmdline ?H demo_sdk Map.empty ?s"
  have w: "fsys (world ?s) = demo_fs" by (simp add: demo_state_def)
  have h1: "\<not> path_exists ?s (sdkmanager_bin ?H demo_sdk)"
    by (simp add: path_exists_def demo_state_def sdkmanager_bin_def demo_host_def demo_fs_def
          demo_latest_def demo_sdk_def)
  have h2: "demo_latest = demo_sdk @ [''cmdline-tools'', ''latest'']"
    by (simp add: demo_latest_def)
  let ?f1 = "demo_fs([''repo''] \<mapsto> D, [''repo'', ''.tooling''] \<mapsto> D,
                     [''repo'', ''.tooling'', ''android-sdk''] \<mapsto> D)"
  let ?f2 = "?f1([''repo''] \<mapsto> D, [''repo'', ''.tooling''] \<mapsto> D,
                 [''repo'', ''.tooling'', ''android-sdk''] \<mapsto> D,
                 [''repo'', ''.tooling'', ''android-sdk'', ''cmdline-tools''] \<mapsto> D,
                 [''repo'', ''.tooling'', ''android-sdk'', ''cmdline-tools'', ''latest''] \<mapsto> D)"
  have h3: "mkdir_p demo_sdk (fsys (world ?s)) = Inr ?f1"
    by (simp add: demo_state_def mkdir_p_def demo_fs_def demo_latest_def demo_sdk_def)
  have h4: "mkdir_p demo_latest ?f1 = Inr ?f2"
    by (simp add: mkdir_p_def demo_fs_def demo_latest_def demo_sdk_def)
  have h5: "urlretrieve ?H (cmdline_url ?H (env_get Map.empty ''ANDROID_CMDLINE_TOOLS'' ''11076708'')) =
           Inr ''zipped''"
    by (simp add: demo_host_def)
  have h6: "extractall ?H ''zipped'' = Inr demo_archive" by (simp add: demo_host_def)
  have h7: "map_of demo_archive ''cmdline-tools'' = Some (TDir ?items)"
    by (simp add: demo_archive_def)
  have h8: "wf_items ?items" by simp
  have h9: "no_clash ?items demo_latest (fsys (world ?s))"
    by (simp add: demo_state_def demo_fs_def demo_latest_def demo_sdk_def)
  note m = cmdline_tools_merge [OF h1 h2 h3 h4 h5 h6 h7 h8 h9]
  from m have a: "fst ?r = Inr ()" by (rule conjunct1)
  from m have b: "\<And>p. p \<noteq> [] \<Longrightarrow> fsys (world (snd ?r)) (demo_latest @ p) =
              laid (tree_at (TDir ?items) p) (fsys (world ?s) (demo_latest @ p))"
    by blast
  have e1: "fsys (world ?s) (demo_latest @ [''README'']) = Some (F ''readme'')"
    and e5: "fsys (world ?s) (demo_latest @ [''cmdline-tools'']) = None"
    by (simp_all add: demo_state_def demo_fs_def demo_latest_def demo_sdk_def)
  have c1: "fsys (world (snd ?r)) (demo_latest @ [''README'']) = Some (F ''readme'')"
    by (simp add: b e1)
  have c2: "fsys (world (snd ?r)) (demo_latest @ [''NOTICE'']) = Some (F ''notice'')"
    by (simp add: b)
  have c3: "fsys (world (snd ?r)) (demo_latest @ [''bin'', ''sdkmanager'']) = Some (F ''launcher'')"
    by (simp add: b)
  have c4: "fsys (world (snd ?r)) (demo_latest @ [''lib'']) = Some D"
    by (simp add: b)
  have c5: "fsys (world (snd ?r)) (demo_latest @ [''cmdline-tools'']) = None"
    by (simp add: b e5)
  from a c1 c2 c3 c4 c5 show ?thesis by (intro conjI)
qed

theorem cmdline_tools_merge_counterexample:
  "fst (install_android_cmdline (demo_host False (\<lambda>a. 0)) demo_sdk Map.empty
          (demo_state demo_clash_fs (\<lambda>n. True))) = Inr () \<and>
   tree_at (TDir demo_archive) [''cmdline-tools'', ''NOTICE''] = Some (TFile ''notice'') \<and>
   tree_at (TDir demo_archive) [''cmdline-tools'', ''NOTICE'', ''NOTICE''] = None \<and>
   demo_clash_fs (demo_latest @ [''NOTICE'', ''NOTICE'']) = Some (F ''kept'') \<and>
   fsys (world (snd (install_android_cmdline (demo_host False (\<lambda>a. 0)) demo_sdk Map.empty
          (demo_state demo_clash_fs (\<lambda>n. True))))) (demo_latest @ [''NOTICE'', ''NOTICE'']) =
     Some (F ''notice'') \<and>
   fsys (world (snd (install_android_cmdline (demo_host False (\<lambda>a. 0)) demo_sdk Map.empty
          (demo_state demo_clash_fs (\<lambda>n. True))))) (demo_latest @ [''NOTICE'']) = Some D"
proof -
  let ?H = "demo_host False (\<lambda>a. 0)"
  let ?s = "demo_state demo_clash_fs (\<lambda>n. True)"
  let ?r = "install_android_cmdline ?H demo_sdk Map.empty ?s"
  let ?items = "[(''bin'', TDir [(''sdkmanager'', TFile ''launcher'')]),
                 (''lib'', TDir [(''sdklib.jar'', TFile ''classes'')]),
                 (''NOTICE'', TFile ''notice'')]"
  let ?L = "[''repo'', ''.tooling'', ''android-sdk'', ''cmdline-tools'', ''latest'']"
  let ?f2 = "demo_clash_fs([''repo''] \<mapsto> D, [''repo'', ''.tooling''] \<mapsto> D,
                 [''repo'', ''.tooling'', ''android-sdk''] \<mapsto> D,
                 [''repo''] \<mapsto> D, [''repo'', ''.tooling''] \<mapsto> D,
                 [''repo'', ''.tooling'', ''android-sdk''] \<mapsto> D,
                 [''repo'', ''.tooling'', ''android-sdk'', ''cmdline-tools''] \<mapsto> D,
                 [''repo'', ''.tooling'', ''android-sdk'', ''cmdline-tools'', ''latest''] \<mapsto> D)"
  let ?f3 = "?f2(?L @ [''bin''] \<mapsto> D, ?L @ [''bin'', ''sdkmanager''] \<mapsto> F ''launcher'',
                 ?L @ [''lib''] \<mapsto> D, ?L @ [''lib'', ''sdklib.jar''] \<mapsto> F ''classes'',
                 ?L @ [''NOTICE'', ''NOTICE''] \<mapsto> F ''notice'')"
  have pl: "place_items ?items ?L ?f2 = (None, ?f3)"
    by (simp add: copytree_def copy2_def Let_def demo_clash_fs_def demo_latest_def demo_sdk_def)
  have ex: "\<not> path_exists ?s (sdkmanager_bin ?H demo_sdk)"
    by (simp add: path_exists_def demo_state_def sdkmanager_bin_def demo_host_def
          demo_clash_fs_def demo_latest_def demo_sdk_def)
  have m1: "mkdir_p demo_sdk (fsys (world ?s)) =
      Inr (demo_clash_fs([''repo''] \<mapsto> D, [''repo'', ''.tooling''] \<mapsto> D,
                 [''repo'', ''.tooling'', ''android-sdk''] \<mapsto> D))"
    by (simp add: demo_state_def mkdir_p_def demo_clash_fs_def demo_latest_def demo_sdk_def)
  have m2: "mkdir_p (demo_sdk @ [''cmdline-tools'', ''latest''])
      (demo_clash_fs([''repo''] \<mapsto> D, [''repo'', ''.tooling''] \<mapsto> D,
                 [''repo'', ''.tooling'', ''android-sdk''] \<mapsto> D)) = Inr ?f2"
    by (simp add: mkdir_p_def demo_clash_fs_def demo_latest_def demo_sdk_def)
  have dl: "demo_sdk @ [''cmdline-tools'', ''latest''] = ?L" by (simp add: demo_sdk_def)
  have res: "fst ?r = Inr () \<and> fsys (world (snd ?r)) = ?f3"
    using ex m1 m2 pl
    by (simp add: install_android_cmdline_def Let_def and_then_def download_def unzip_def
          demo_host_def demo_archive_def dl)
  have a: "tree_at (TDir demo_archive) [''cmdline-tools'', ''NOTICE''] = Some (TFile ''notice'')"
    and b: "tree_at (TDir demo_archive) [''cmdline-tools'', ''NOTICE'', ''NOTICE''] = None"
    by (simp_all add: demo_archive_def)
  have c: "demo_clash_fs (demo_latest @ [''NOTICE'', ''NOTICE'']) = Some (F ''kept'')"
    by (simp add: demo_clash_fs_def demo_latest_def demo_sdk_def)
  have d: "?f3 (demo_latest @ [''NOTICE'', ''NOTICE'']) = Some (F ''notice'')"
    and e: "?f3 (demo_latest @ [''NOTICE'']) = Some D"
    by (simp_all add: demo_clash_fs_def demo_latest_def demo_sdk_def)
  from res a b c d e show ?thesis by simp
qed

end
